theory Spec2Isabelle
  imports Complex_Main "HOL-Library.Word" "HOL-Library.Multiset"
begin

section \<open>Machine numbers\<close>

text \<open>
  The monitor is built for 64-bit Linux: \<^verbatim>\<open>long long\<close> and \<^verbatim>\<open>long\<close> are 64-bit
  two's-complement integers, \<^verbatim>\<open>uid_t\<close> is an unsigned 32-bit integer. They are words here;
  \<open>+\<close> and \<open>-\<close> wrap around (the result the usual compilers give where C++ leaves signed
  overflow undefined), \<open>sint\<close> reads the signed value, and a signed comparison
  \<^verbatim>\<open>x > 0\<close> is \<open>0 < sint x\<close>.

  An \<^verbatim>\<open>int\<close> pid is a HOL \<open>int\<close>: the program does no arithmetic on pids, and the only
  producer of one, \<^verbatim>\<open>std::stoi\<close>, refuses every value outside the 32-bit range.

  A \<^verbatim>\<open>double\<close> is a HOL \<open>real\<close>: the finite values, with exact arithmetic. Rounding to
  53 bits is not modelled. The one operation of the program that can leave the finite
  values, a division, is \<open>fdiv\<close> below, which reports a zero divisor.
\<close>

type_synonym llong = "64 word"
type_synonym long = "64 word"
type_synonym uid_t = "32 word"

definition LLONG_MAX :: int where "LLONG_MAX = 2 ^ 63 - 1"
definition LLONG_MIN :: int where "LLONG_MIN = - (2 ^ 63)"
definition INT_MAX :: int where "INT_MAX = 2 ^ 31 - 1"
definition INT_MIN :: int where "INT_MIN = - (2 ^ 31)"
definition UINT_MAX :: int where "UINT_MAX = 2 ^ 32 - 1"

text \<open>The conversion \<^verbatim>\<open>(double)x\<close> of a signed 64-bit integer.\<close>

definition to_double :: "64 word \<Rightarrow> real" where
  "to_double x = real_of_int (sint x)"

text \<open>
  What stops a call other than a normal return: a floating-point division whose divisor is
  zero (C++ yields an infinity or a NaN there, no finite \<^verbatim>\<open>double\<close>), an exception that
  no handler of the program catches, and a write outside an array.
\<close>

datatype fault =
    DivisionByZero
  | SubstrOutOfRange
  | StolInvalidArgument
  | StolOutOfRange
  | ArrayOutOfBounds
  | CastOutOfRange

definition fdiv :: "real \<Rightarrow> real \<Rightarrow> fault + real" where
  "fdiv a b = (if b = 0 then Inl DivisionByZero else Inr (a / b))"

section \<open>Characters and numerals of the C library\<close>

text \<open>\<^verbatim>\<open>isspace\<close> and \<^verbatim>\<open>isdigit\<close> in the C locale.\<close>

definition isspace_c :: "char \<Rightarrow> bool" where
  "isspace_c c \<longleftrightarrow> (of_char c :: nat) = 32 \<or> (9 \<le> (of_char c :: nat) \<and> (of_char c :: nat) \<le> 13)"

definition isdigit_c :: "char \<Rightarrow> bool" where
  "isdigit_c c \<longleftrightarrow> 48 \<le> (of_char c :: nat) \<and> (of_char c :: nat) \<le> 57"

definition digit_val :: "char \<Rightarrow> nat" where
  "digit_val c = of_char c - 48"

text \<open>The value of a run of decimal digits, most significant first.\<close>

definition digits_val :: "string \<Rightarrow> nat" where
  "digits_val ds = foldl (\<lambda>n c. 10 * n + digit_val c) 0 ds"

text \<open>
  The common front end of \<^verbatim>\<open>strtol\<close> and of the stream extractors, on a text whose
  leading white space is gone: an optional sign, then the longest run of digits. It gives
  the sign, the digits and the text after them.
\<close>

definition scan_sign :: "string \<Rightarrow> bool \<times> string" where
  "scan_sign s =
     (case s of
        [] \<Rightarrow> (False, [])
      | c # t \<Rightarrow>
          if c = CHR ''-'' then (True, t)
          else if c = CHR ''+'' then (False, t)
          else (False, s))"

definition scan_number :: "string \<Rightarrow> bool \<times> string \<times> string" where
  "scan_number s =
     (let (neg, t) = scan_sign s
      in (neg, takeWhile isdigit_c t, dropWhile isdigit_c t))"

subsection \<open>\<^verbatim>\<open>std::stoi\<close> and \<^verbatim>\<open>std::stol\<close>\<close>

text \<open>
  Both call \<^verbatim>\<open>strtol\<close> in base 10: leading white space is skipped, a sign is optional,
  the digits that follow are converted and whatever comes after them is ignored. No digit
  at all is \<^verbatim>\<open>std::invalid_argument\<close>; a value outside the result type is
  \<^verbatim>\<open>std::out_of_range\<close>.
\<close>

datatype conv_error = InvalidArgument | OutOfRange

definition strtol_range :: "int \<Rightarrow> int \<Rightarrow> string \<Rightarrow> conv_error + int" where
  "strtol_range lo hi s =
     (let (neg, ds, rest) = scan_number (dropWhile isspace_c s)
      in if ds = [] then Inl InvalidArgument
         else let v = (if neg then - int (digits_val ds) else int (digits_val ds))
              in if v < lo \<or> hi < v then Inl OutOfRange else Inr v)"

definition stoi :: "string \<Rightarrow> conv_error + int" where
  "stoi s = strtol_range INT_MIN INT_MAX s"

definition stol :: "string \<Rightarrow> conv_error + long" where
  "stol s =
     (case strtol_range LLONG_MIN LLONG_MAX s of
        Inl e \<Rightarrow> Inl e
      | Inr v \<Rightarrow> Inr (word_of_int v))"

text \<open>
  A name that is a non-negative decimal numeral and nothing else: the plain reading of a
  numeric directory entry, against which \<^verbatim>\<open>std::stoi\<close> is compared below.
\<close>

definition is_numeral :: "string \<Rightarrow> bool" where
  "is_numeral s \<longleftrightarrow> s \<noteq> [] \<and> (\<forall>c \<in> set s. isdigit_c c)"

subsection \<open>Formatted extraction from a \<^verbatim>\<open>std::stringstream\<close>\<close>

text \<open>
  A stream is the text not yet read and its fail bit. An extractor on a failed stream does
  nothing: the variable keeps its old value. Otherwise white space is skipped first, and
  when the text ends there the stream fails and the variable is again left alone.
\<close>

type_synonym istream = "string \<times> bool"

definition sstream :: "string \<Rightarrow> istream" where
  "sstream s = (s, False)"

text \<open>\<^verbatim>\<open>ss >> str\<close> for a \<^verbatim>\<open>std::string\<close>: the next run of non-space characters.\<close>

definition get_string :: "istream \<Rightarrow> string \<Rightarrow> string \<times> istream" where
  "get_string st old =
     (case st of (s, failed) \<Rightarrow>
        if failed then (old, st)
        else let s1 = dropWhile isspace_c s
             in if s1 = [] then (old, ([], True))
                else (takeWhile (\<lambda>c. \<not> isspace_c c) s1,
                      (dropWhile (\<lambda>c. \<not> isspace_c c) s1, False)))"

text \<open>
  \<^verbatim>\<open>ss >> x\<close> for an integer of the given range. With no digit the variable becomes 0
  and the stream fails; a value beyond the range is replaced by the nearest bound and the
  stream fails. For an unsigned type (\<open>lo = 0\<close>) a minus sign negates the value modulo
  the word size, which \<open>word_of_int\<close> does.
\<close>

definition get_integer :: "int \<Rightarrow> int \<Rightarrow> istream \<Rightarrow> 'a::len word \<Rightarrow> 'a word \<times> istream" where
  "get_integer lo hi st old =
     (case st of (s, failed) \<Rightarrow>
        if failed then (old, st)
        else let s1 = dropWhile isspace_c s
             in if s1 = [] then (old, ([], True))
                else let (neg, ds, rest) = scan_number s1;
                         n = int (digits_val ds)
                     in if ds = [] then (0, (rest, True))
                        else if lo < 0 then
                          (if neg then
                             (if n \<le> - lo then (word_of_int (- n), (rest, False))
                              else (word_of_int lo, (rest, True)))
                           else
                             (if n \<le> hi then (word_of_int n, (rest, False))
                              else (word_of_int hi, (rest, True))))
                        else
                          (if n \<le> hi then (word_of_int (if neg then - n else n), (rest, False))
                           else (word_of_int hi, (rest, True))))"

definition get_llong :: "istream \<Rightarrow> llong \<Rightarrow> llong \<times> istream" where
  "get_llong = get_integer LLONG_MIN LLONG_MAX"

definition get_uid :: "istream \<Rightarrow> uid_t \<Rightarrow> uid_t \<times> istream" where
  "get_uid = get_integer 0 UINT_MAX"

text \<open>\<^verbatim>\<open>line.rfind(prefix, 0) == 0\<close>: the line starts with the prefix.\<close>

definition starts_with :: "string \<Rightarrow> string \<Rightarrow> bool" where
  "starts_with line pre \<longleftrightarrow> take (length pre) line = pre"

text \<open>\<^verbatim>\<open>line.substr(pos)\<close> throws \<^verbatim>\<open>std::out_of_range\<close> when \<open>pos\<close> is beyond the end.\<close>

definition substr :: "string \<Rightarrow> nat \<Rightarrow> fault + string" where
  "substr line pos = (if length line < pos then Inl SubstrOutOfRange else Inr (drop pos line))"

text \<open>
  A file is the list of its lines, or \<open>None\<close> when it cannot be opened. The first
  \<^verbatim>\<open>std::getline\<close> leaves the line empty when there is nothing to read.
\<close>

type_synonym text_file = "string list option"

definition first_line :: "text_file \<Rightarrow> string" where
  "first_line f = (case f of None \<Rightarrow> [] | Some [] \<Rightarrow> [] | Some (l # ls) \<Rightarrow> l)"

section \<open>Data structures\<close>

record SysCpuTimes =
  user :: llong
  nice :: llong
  system :: llong
  idle :: llong
  iowait :: llong
  irq :: llong
  softirq :: llong
  steal :: llong
  total :: llong

record Process =
  pid :: int
  user :: string
  name :: string
  cpuPercent :: real
  memPercent :: real
  memRssKb :: long
  utime :: llong
  stime :: llong

datatype SortMode = BY_CPU | BY_MEM | BY_PID

text \<open>The aggregate initialisers \<^verbatim>\<open>SysCpuTimes t = {0}\<close> and \<^verbatim>\<open>Process p = {0}\<close>.\<close>

definition SysCpuTimes_zero :: SysCpuTimes where
  "SysCpuTimes_zero =
     \<lparr>SysCpuTimes.user = 0, nice = 0, system = 0, idle = 0, iowait = 0, irq = 0, softirq = 0,
      steal = 0, total = 0\<rparr>"

definition Process_zero :: Process where
  "Process_zero =
     \<lparr>pid = 0, user = [], name = [], cpuPercent = 0, memPercent = 0, memRssKb = 0,
      utime = 0, stime = 0\<rparr>"

section \<open>Parsing functions\<close>

subsection \<open>\<^verbatim>\<open>getSystemCpuTimes\<close>\<close>

text \<open>
  The argument is \<^verbatim>\<open>/proc/stat\<close>. The eight extractions of the source are chained on one
  stream, so each starts where the one before stopped.
\<close>

definition getSystemCpuTimes :: "text_file \<Rightarrow> SysCpuTimes" where
  "getSystemCpuTimes f =
     (let line = first_line f
      in if starts_with line ''cpu'' then
           (let (cpu, s0) = get_string (sstream line) [];
                (u, s1) = get_llong s0 0;
                (n, s2) = get_llong s1 0;
                (sy, s3) = get_llong s2 0;
                (idl, s4) = get_llong s3 0;
                (io, s5) = get_llong s4 0;
                (ir, s6) = get_llong s5 0;
                (so, s7) = get_llong s6 0;
                (stl, s8) = get_llong s7 0
            in \<lparr>SysCpuTimes.user = u, nice = n, system = sy, idle = idl, iowait = io,
                irq = ir, softirq = so, steal = stl,
                total = u + n + sy + idl + io + ir + so + stl\<rparr>)
         else SysCpuTimes_zero)"

text \<open>The sum of the eight counters of a sample, as a number.\<close>

definition field_sum :: "SysCpuTimes \<Rightarrow> int" where
  "field_sum t =
     sint (SysCpuTimes.user t) + sint (nice t) + sint (system t) + sint (idle t) +
     sint (iowait t) + sint (irq t) + sint (softirq t) + sint (steal t)"

text \<open>
  A well-formed counters line is the label \<^verbatim>\<open>cpu\<close> followed by fields, each a run of white
  space (\<open>blanks\<close>) and a decimal numeral that fits \<^verbatim>\<open>long long\<close>; \<open>counter_val\<close> is the
  64-bit value of such a numeral.
\<close>

definition blanks :: "string \<Rightarrow> bool" where
  "blanks w \<longleftrightarrow> w \<noteq> [] \<and> (\<forall>c \<in> set w. isspace_c c)"

definition counter_field :: "string \<Rightarrow> string \<Rightarrow> bool" where
  "counter_field w d \<longleftrightarrow> blanks w \<and> is_numeral d \<and> int (digits_val d) \<le> LLONG_MAX"

definition counter_val :: "string \<Rightarrow> llong" where
  "counter_val d = word_of_int (int (digits_val d))"

subsection \<open>\<^verbatim>\<open>getUsername\<close>\<close>

text \<open>
  The global \<^verbatim>\<open>usernameCache\<close> is a map from uid to name, and the status files the
  function can open are a function from pid to file. The loop stops at the first line that
  starts with \<^verbatim>\<open>Uid:\<close>; \<^verbatim>\<open>uid\<close> starts as 0 and stays so when no such line exists.
\<close>

definition parse_uid_line :: "string \<Rightarrow> uid_t \<Rightarrow> uid_t" where
  "parse_uid_line line uid =
     (let (key, s0) = get_string (sstream line) [];
          (uid', s1) = get_uid s0 uid
      in uid')"

fun find_uid :: "string list \<Rightarrow> uid_t \<Rightarrow> uid_t" where
  "find_uid [] uid = uid"
| "find_uid (line # rest) uid =
     (if starts_with line ''Uid:'' then parse_uid_line line uid else find_uid rest uid)"

definition getUsername :: "(uid_t \<rightharpoonup> string) \<Rightarrow> (int \<Rightarrow> text_file) \<Rightarrow> int \<Rightarrow> string" where
  "getUsername usernameCache status_files pid' =
     (case status_files pid' of
        None \<Rightarrow> ''n/a''
      | Some lines \<Rightarrow>
          (case usernameCache (find_uid lines 0) of
             Some nm \<Rightarrow> nm
           | None \<Rightarrow> ''unknown''))"

subsection \<open>\<^verbatim>\<open>getProcesses\<close>\<close>

text \<open>
  What one scan of \<^verbatim>\<open>/proc\<close> finds: the names \<^verbatim>\<open>readdir\<close> returns, in its order
  (\<open>None\<close> when \<^verbatim>\<open>opendir\<close> fails), and for every pid the files
  \<^verbatim>\<open>/proc/[pid]/stat\<close> and \<^verbatim>\<open>/proc/[pid]/status\<close>. The status file is opened twice,
  by \<^verbatim>\<open>getProcesses\<close> and a moment later by \<^verbatim>\<open>getUsername\<close>; a process can end in
  between, so the second opening has a result of its own.
\<close>

record procfs =
  proc_dir :: "string list option"
  stat_file :: "int \<Rightarrow> text_file"
  status_file :: "int \<Rightarrow> text_file"
  status_file_later :: "int \<Rightarrow> text_file"

text \<open>
  Fields 14 and 15 of the stat line: thirteen strings are extracted and dropped, then
  \<^verbatim>\<open>utime\<close> and \<^verbatim>\<open>stime\<close>, both 0 before.
\<close>

definition skip_string :: "istream \<Rightarrow> istream" where
  "skip_string st = snd (get_string st [])"

definition parse_stat :: "string \<Rightarrow> llong \<times> llong" where
  "parse_stat statLine =
     (let s13 = (skip_string ^^ 13) (sstream statLine);
          (ut, s14) = get_llong s13 0;
          (st, s15) = get_llong s14 0
      in (ut, st))"

text \<open>\<^verbatim>\<open>s.erase(s.find_last_not_of(" \n\r\t") + 1)\<close>: the trailing blanks go.\<close>

definition is_trim_char :: "char \<Rightarrow> bool" where
  "is_trim_char c \<longleftrightarrow> c = CHR '' '' \<or> c = CHR 0x0A \<or> c = CHR 0x0D \<or> c = CHR 0x09"

definition rtrim :: "string \<Rightarrow> string" where
  "rtrim s = rev (dropWhile is_trim_char (rev s))"

text \<open>
  The loop over the lines of the status file, on the pair \<^verbatim>\<open>(p.name, p.memRssKb)\<close>.
  Neither \<^verbatim>\<open>substr\<close> nor \<^verbatim>\<open>std::stol\<close> stands in a \<^verbatim>\<open>try\<close> block.
\<close>

fun read_status :: "string list \<Rightarrow> string \<times> long \<Rightarrow> fault + (string \<times> long)" where
  "read_status [] acc = Inr acc"
| "read_status (line # rest) (nm, rss) =
     (if starts_with line ''Name:'' then
        (case substr line 6 of
           Inl f \<Rightarrow> Inl f
         | Inr s \<Rightarrow> read_status rest (rtrim s, rss))
      else if starts_with line ''VmRSS:'' then
        (case substr line 7 of
           Inl f \<Rightarrow> Inl f
         | Inr s \<Rightarrow>
             (case stol s of
                Inl InvalidArgument \<Rightarrow> Inl StolInvalidArgument
              | Inl OutOfRange \<Rightarrow> Inl StolOutOfRange
              | Inr v \<Rightarrow> read_status rest (nm, v)))
      else read_status rest (nm, rss))"

text \<open>Step 4 of the loop body: the delta against the global \<^verbatim>\<open>prevProcessTimes\<close>.\<close>

definition processTimeDelta :: "(int \<rightharpoonup> llong \<times> llong) \<Rightarrow> int \<Rightarrow> llong \<Rightarrow> llong \<Rightarrow> llong" where
  "processTimeDelta prevProcessTimes pid' ut st =
     (let currentProcessTotalTime = ut + st;
          prevProcessTotalTime =
            (case prevProcessTimes pid' of
               Some (first, second) \<Rightarrow> first + second
             | None \<Rightarrow> 0)
      in currentProcessTotalTime - prevProcessTotalTime)"

definition calc_cpuPercent :: "llong \<Rightarrow> llong \<Rightarrow> fault + real" where
  "calc_cpuPercent delta totalCpuTimeDelta =
     (if 0 < sint totalCpuTimeDelta
      then fdiv (100 * to_double delta) (to_double totalCpuTimeDelta)
      else Inr 0)"

definition calc_memPercent :: "long \<Rightarrow> long \<Rightarrow> fault + real" where
  "calc_memPercent rss totalSystemMemKb =
     (if 0 < sint totalSystemMemKb
      then fdiv (100 * to_double rss) (to_double totalSystemMemKb)
      else Inr 0)"

text \<open>
  One round of the \<^verbatim>\<open>readdir\<close> loop: \<open>Inr None\<close> is a \<^verbatim>\<open>continue\<close>, \<open>Inr (Some p)\<close>
  the sample pushed, \<open>Inl\<close> a fault that ends the program.
\<close>

definition sampleEntry ::
  "(uid_t \<rightharpoonup> string) \<Rightarrow> (int \<rightharpoonup> llong \<times> llong) \<Rightarrow> procfs \<Rightarrow> long \<Rightarrow> llong \<Rightarrow> string
     \<Rightarrow> fault + Process option" where
  "sampleEntry usernameCache prevProcessTimes fs totalSystemMemKb totalCpuTimeDelta d_name =
     (case stoi d_name of
        Inl e \<Rightarrow> Inr None
      | Inr pid' \<Rightarrow>
          (case stat_file fs pid' of
             None \<Rightarrow> Inr None
           | Some stat_lines \<Rightarrow>
               (let (ut, st) = parse_stat (first_line (Some stat_lines))
                in case status_file fs pid' of
                     None \<Rightarrow> Inr None
                   | Some lines \<Rightarrow>
                       (case read_status lines ([], 0) of
                          Inl f \<Rightarrow> Inl f
                        | Inr (nm, rss) \<Rightarrow>
                            if nm = [] then Inr None
                            else
                              (case calc_cpuPercent
                                      (processTimeDelta prevProcessTimes pid' ut st)
                                      totalCpuTimeDelta of
                                 Inl f \<Rightarrow> Inl f
                               | Inr cpu \<Rightarrow>
                                   (case calc_memPercent rss totalSystemMemKb of
                                      Inl f \<Rightarrow> Inl f
                                    | Inr mem \<Rightarrow>
                                        Inr (Some
                                          \<lparr>pid = pid',
                                           user = getUsername usernameCache
                                                    (status_file_later fs) pid',
                                           name = nm,
                                           cpuPercent = cpu,
                                           memPercent = mem,
                                           memRssKb = rss,
                                           utime = ut,
                                           stime = st\<rparr>)))))))"

fun scan_entries ::
  "(uid_t \<rightharpoonup> string) \<Rightarrow> (int \<rightharpoonup> llong \<times> llong) \<Rightarrow> procfs \<Rightarrow> long \<Rightarrow> llong \<Rightarrow> string list
     \<Rightarrow> Process list \<Rightarrow> fault + Process list" where
  "scan_entries uc prev fs mem cpu [] processes = Inr processes"
| "scan_entries uc prev fs mem cpu (d_name # rest) processes =
     (case sampleEntry uc prev fs mem cpu d_name of
        Inl f \<Rightarrow> Inl f
      | Inr None \<Rightarrow> scan_entries uc prev fs mem cpu rest processes
      | Inr (Some p) \<Rightarrow> scan_entries uc prev fs mem cpu rest (processes @ [p]))"

definition getProcesses ::
  "(uid_t \<rightharpoonup> string) \<Rightarrow> (int \<rightharpoonup> llong \<times> llong) \<Rightarrow> procfs \<Rightarrow> long \<Rightarrow> llong
     \<Rightarrow> fault + Process list" where
  "getProcesses usernameCache prevProcessTimes fs totalSystemMemKb totalCpuTimeDelta =
     (case proc_dir fs of
        None \<Rightarrow> Inr []
      | Some entries \<Rightarrow>
          scan_entries usernameCache prevProcessTimes fs totalSystemMemKb totalCpuTimeDelta
            entries [])"

text \<open>The pids that the names of a directory denote for \<^verbatim>\<open>std::stoi\<close>, in order.\<close>

definition entry_pids :: "string list \<Rightarrow> int list" where
  "entry_pids es = List.map_filter (\<lambda>d. case stoi d of Inr n \<Rightarrow> Some n | Inl e \<Rightarrow> None) es"

section \<open>Process killing\<close>

text \<open>
  A call that waits for keys has three ends: it is still waiting when the keys run out
  (\<^verbatim>\<open>wgetch\<close> on the modal window blocks), it is stopped by a fault, or it returns.
\<close>

datatype 'a run = Waiting | Stopped fault | Done 'a

definition KEY_ESC :: int where "KEY_ESC = 27"
definition KEY_ENTER :: int where "KEY_ENTER = 10"
definition KEY_BACKSPACE :: int where "KEY_BACKSPACE = 263"
definition KEY_DEL :: int where "KEY_DEL = 127"
definition SIGTERM :: int where "SIGTERM = 15"

definition isdigit :: "int \<Rightarrow> bool" where
  "isdigit ch \<longleftrightarrow> 48 \<le> ch \<and> ch \<le> 57"

text \<open>
  One round of the input loop of \<^verbatim>\<open>killProcessWindow\<close>, on the array
  \<^verbatim>\<open>char pidStr[20]\<close>, the index \<^verbatim>\<open>i\<close> and the key \<^verbatim>\<open>wgetch\<close> returned: the loop is
  left (\<open>Break\<close>), goes round again (\<open>Again\<close>), or a write misses the array. The
  bounds test before each write is the model's; the source writes unchecked.
\<close>

datatype loop_step = Break "char list \<times> int" | Again "char list \<times> int" | Fault fault

definition loop_body :: "char list \<Rightarrow> int \<Rightarrow> int \<Rightarrow> loop_step" where
  "loop_body pidStr i ch =
     (if ch = KEY_ESC then Break (pidStr, - 1)
      else if ch = KEY_ENTER then
        (if 0 \<le> i \<and> nat i < length pidStr
         then Break (pidStr[nat i := CHR 0x00], i)
         else Fault ArrayOutOfBounds)
      else if ch = KEY_BACKSPACE \<or> ch = KEY_DEL then
        (if 0 < i then Again (pidStr, i - 1) else Again (pidStr, i))
      else if isdigit ch \<and> i < 19 then
        (if 0 \<le> i \<and> nat i < length pidStr
         then Again (pidStr[nat i := char_of ch], i + 1)
         else Fault ArrayOutOfBounds)
      else Again (pidStr, i))"

text \<open>The loop \<^verbatim>\<open>while (true)\<close> on the keys to come.\<close>

fun input_loop :: "char list \<Rightarrow> int \<Rightarrow> int list \<Rightarrow> (char list \<times> int) run" where
  "input_loop pidStr i [] = Waiting"
| "input_loop pidStr i (ch # keys) =
     (case loop_body pidStr i ch of
        Break r \<Rightarrow> Done r
      | Fault f \<Rightarrow> Stopped f
      | Again (pidStr', i') \<Rightarrow> input_loop pidStr' i' keys)"

text \<open>
  The states in which a run of the loop stands at the head of the loop, in order: the
  array and the index before each key is read.
\<close>

fun loop_heads :: "char list \<Rightarrow> int \<Rightarrow> int list \<Rightarrow> (char list \<times> int) list" where
  "loop_heads pidStr i [] = [(pidStr, i)]"
| "loop_heads pidStr i (ch # keys) =
     (pidStr, i) #
     (case loop_body pidStr i ch of
        Again (pidStr', i') \<Rightarrow> loop_heads pidStr' i' keys
      | Break r \<Rightarrow> []
      | Fault f \<Rightarrow> [])"

text \<open>
  What the loop keeps true of the array and the index: the index stays inside the array
  with room for the final NUL, and the characters before it, the buffer typed so far, are
  digits.
\<close>

definition buffer_ok :: "char list \<Rightarrow> int \<Rightarrow> bool" where
  "buffer_ok pidStr i \<longleftrightarrow>
     length pidStr = 20 \<and> 0 \<le> i \<and> i \<le> 19 \<and> (\<forall>c \<in> set (take (nat i) pidStr). isdigit_c c)"

text \<open>The C string an array holds: the characters before the first NUL.\<close>

definition c_str :: "char list \<Rightarrow> string" where
  "c_str a = takeWhile (\<lambda>c. c \<noteq> CHR 0x00) a"

text \<open>
  The result is the list of \<^verbatim>\<open>kill(pid, sig)\<close> calls made. The array starts with
  whatever the stack holds, \<open>pidStr0\<close>. Every exception of \<^verbatim>\<open>std::stoi\<close> is caught and
  dropped, and the value \<^verbatim>\<open>kill\<close> returns changes nothing.
\<close>

definition killProcessWindow :: "char list \<Rightarrow> int list \<Rightarrow> (int \<times> int) list run" where
  "killProcessWindow pidStr0 keys =
     (case input_loop pidStr0 0 keys of
        Waiting \<Rightarrow> Waiting
      | Stopped f \<Rightarrow> Stopped f
      | Done (pidStr, i) \<Rightarrow>
          if i = - 1 then Done []
          else if CHR 0x00 \<notin> set pidStr then Stopped ArrayOutOfBounds
          else
            (case stoi (c_str pidStr) of
               Inr pid' \<Rightarrow> Done [(pid', SIGTERM)]
             | Inl e \<Rightarrow> Done []))"

section \<open>Sorting\<close>

definition compareByCpu :: "Process \<Rightarrow> Process \<Rightarrow> bool" where
  "compareByCpu a b \<longleftrightarrow> cpuPercent a > cpuPercent b"

definition compareByMem :: "Process \<Rightarrow> Process \<Rightarrow> bool" where
  "compareByMem a b \<longleftrightarrow> memPercent a > memPercent b"

definition compareByPid :: "Process \<Rightarrow> Process \<Rightarrow> bool" where
  "compareByPid a b \<longleftrightarrow> pid a < pid b"

text \<open>
  \<^verbatim>\<open>std::sort(first, last, cmp)\<close> belongs to the C++ library, and the standard fixes its
  result only so far: the elements are rearranged, and afterwards no element is
  \<open>cmp\<close>-less than one that stands before it. The order among elements that \<open>cmp\<close> does
  not separate is the library's choice. \<open>std_sort cmp xs ys\<close> says that \<open>ys\<close> is such a
  result for the vector \<open>xs\<close>.
\<close>

definition std_sort :: "('a \<Rightarrow> 'a \<Rightarrow> bool) \<Rightarrow> 'a list \<Rightarrow> 'a list \<Rightarrow> bool" where
  "std_sort cmp xs ys \<longleftrightarrow> mset ys = mset xs \<and> sorted_wrt (\<lambda>a b. \<not> cmp b a) ys"

text \<open>The comparator the \<^verbatim>\<open>if\<close> chain of \<^verbatim>\<open>main\<close> hands to \<^verbatim>\<open>std::sort\<close>.\<close>

definition comparator :: "SortMode \<Rightarrow> Process \<Rightarrow> Process \<Rightarrow> bool" where
  "comparator mode =
     (case mode of BY_CPU \<Rightarrow> compareByCpu | BY_MEM \<Rightarrow> compareByMem | BY_PID \<Rightarrow> compareByPid)"

section \<open>Drawing\<close>

text \<open>
  Of \<^verbatim>\<open>drawSystemInfo\<close> the model keeps what is computed: the two bars and the two
  percentages handed to \<^verbatim>\<open>mvprintw\<close>. \<^verbatim>\<open>std::round\<close> rounds halves away from zero, and
  the cast to \<^verbatim>\<open>int\<close> is defined only inside the range of \<^verbatim>\<open>int\<close>. The divisor 100.0 is
  a literal; the divisor \<^verbatim>\<open>memTotal\<close> is a variable and goes through \<open>fdiv\<close>.
\<close>

definition std_round :: "real \<Rightarrow> int" where
  "std_round x = (if 0 \<le> x then \<lfloor>x + 1 / 2\<rfloor> else \<lceil>x - 1 / 2\<rceil>)"

definition to_int :: "int \<Rightarrow> fault + int" where
  "to_int v = (if v < INT_MIN \<or> INT_MAX < v then Inl CastOutOfRange else Inr v)"

definition draw_bar :: "nat \<Rightarrow> int \<Rightarrow> string" where
  "draw_bar barWidth blocks =
     map (\<lambda>i. if int i < blocks then CHR ''|'' else CHR '' '') [0..<barWidth]"

definition drawSystemInfo :: "real \<Rightarrow> long \<Rightarrow> long \<Rightarrow> fault + (string \<times> real \<times> string \<times> real)" where
  "drawSystemInfo cpuUsage memUsed memTotal =
     (let barWidth = 20
      in case to_int (std_round (cpuUsage / 100 * real barWidth)) of
           Inl f \<Rightarrow> Inl f
         | Inr cpuBlocks \<Rightarrow>
             (case fdiv (100 * to_double memUsed) (to_double memTotal) of
                Inl f \<Rightarrow> Inl f
              | Inr memPercent' \<Rightarrow>
                  (case to_int (std_round (memPercent' / 100 * real barWidth)) of
                     Inl f \<Rightarrow> Inl f
                   | Inr memBlocks \<Rightarrow>
                       Inr (draw_bar barWidth cpuBlocks, cpuUsage,
                            draw_bar barWidth memBlocks, memPercent'))))"

section \<open>The main loop\<close>

text \<open>The globals of the program.\<close>

record monitor_state =
  currentSortMode :: SortMode
  prevProcessTimes :: "int \<rightharpoonup> llong \<times> llong"
  prevSysCpuTimes :: SysCpuTimes
  usernameCache :: "uid_t \<rightharpoonup> string"

text \<open>
  What one iteration reads from the system: the pair \<^verbatim>\<open>getMemoryInfo\<close> returns (total
  and available memory in KB), the file \<^verbatim>\<open>/proc/stat\<close> and the process directory.
\<close>

record tick_input =
  memInfo :: "long \<times> long"
  proc_stat :: text_file
  proc :: procfs

text \<open>
  The loop \<^verbatim>\<open>for (const auto &p : processes) prevProcessTimes[p.pid] = {p.utime, p.stime}\<close>.
\<close>

definition record_times ::
  "Process list \<Rightarrow> (int \<rightharpoonup> llong \<times> llong) \<Rightarrow> (int \<rightharpoonup> llong \<times> llong)" where
  "record_times ps m = foldl (\<lambda>m p. m(pid p \<mapsto> (utime p, stime p))) m ps"

text \<open>Part A of an iteration: the key \<^verbatim>\<open>getch\<close> returned.\<close>

datatype key_result = Quit | Continue SortMode "(int \<times> int) list"

definition handle_key :: "int \<Rightarrow> SortMode \<Rightarrow> char list \<Rightarrow> int list \<Rightarrow> key_result run" where
  "handle_key ch mode pidStr0 modal_keys =
     (if ch = 113 then Done Quit
      else if ch = 99 then Done (Continue BY_CPU [])
      else if ch = 109 then Done (Continue BY_MEM [])
      else if ch = 112 then Done (Continue BY_PID [])
      else if ch = 107 then
        (case killProcessWindow pidStr0 modal_keys of
           Waiting \<Rightarrow> Waiting
         | Stopped f \<Rightarrow> Stopped f
         | Done sent \<Rightarrow> Done (Continue mode sent))
      else Done (Continue mode []))"

text \<open>Part B: gathering the data of the tick.\<close>

definition calc_sysCpuUsage :: "llong \<Rightarrow> llong \<Rightarrow> fault + real" where
  "calc_sysCpuUsage totalDelta idleDelta =
     (if 0 < sint totalDelta
      then fdiv (100 * to_double (totalDelta - idleDelta)) (to_double totalDelta)
      else Inr 0)"

record gathered =
  memTotal :: long
  memUsed :: long
  currentSysCpuTimes :: SysCpuTimes
  totalDelta :: llong
  idleDelta :: llong
  sysCpuUsage :: real
  processes :: "Process list"

definition gather :: "monitor_state \<Rightarrow> tick_input \<Rightarrow> fault + gathered" where
  "gather s inp =
     (let (mt, memAvailable) = memInfo inp;
          mu = mt - memAvailable;
          cur = getSystemCpuTimes (proc_stat inp);
          td = SysCpuTimes.total cur - SysCpuTimes.total (prevSysCpuTimes s);
          idl = idle cur - idle (prevSysCpuTimes s)
      in case calc_sysCpuUsage td idl of
           Inl f \<Rightarrow> Inl f
         | Inr usage \<Rightarrow>
             (case getProcesses (usernameCache s) (prevProcessTimes s) (proc inp) mt td of
                Inl f \<Rightarrow> Inl f
              | Inr ps \<Rightarrow>
                  Inr \<lparr>memTotal = mt, memUsed = mu, currentSysCpuTimes = cur,
                       totalDelta = td, idleDelta = idl, sysCpuUsage = usage,
                       processes = ps\<rparr>))"

text \<open>
  Part C: the vector is sorted in the current mode and the previous-sample store is
  rewritten from it. \<open>ps\<close> is the vector as \<^verbatim>\<open>std::sort\<close> leaves it.
\<close>

definition update_previous :: "monitor_state \<Rightarrow> gathered \<Rightarrow> Process list \<Rightarrow> monitor_state" where
  "update_previous s g ps =
     s\<lparr>prevSysCpuTimes := currentSysCpuTimes g,
       prevProcessTimes := record_times ps Map.empty\<rparr>"

text \<open>
  One tick, parts B and C: from the globals \<open>s\<close> and the input to the data gathered \<open>g\<close>,
  the sorted vector \<open>ps\<close> that is drawn, and the globals \<open>s'\<close> the next iteration starts
  from.
\<close>

definition main_tick ::
  "monitor_state \<Rightarrow> tick_input \<Rightarrow> gathered \<Rightarrow> Process list \<Rightarrow> monitor_state \<Rightarrow> bool" where
  "main_tick s inp g ps s' \<longleftrightarrow>
     gather s inp = Inr g \<and>
     std_sort (comparator (currentSortMode s)) (processes g) ps \<and>
     s' = update_previous s g ps"

text \<open>
  The start of \<^verbatim>\<open>main\<close>: the cache as \<^verbatim>\<open>loadUsernames\<close> filled it, the first CPU
  snapshot, and a first scan with the dummy arguments 1 and 1 whose samples fill the
  (empty) store in the order of the scan.
\<close>

definition main_init :: "(uid_t \<rightharpoonup> string) \<Rightarrow> tick_input \<Rightarrow> fault + monitor_state" where
  "main_init cache inp =
     (case getProcesses cache Map.empty (proc inp) 1 1 of
        Inl f \<Rightarrow> Inl f
      | Inr tempProcs \<Rightarrow>
          Inr \<lparr>currentSortMode = BY_CPU,
               prevProcessTimes = record_times tempProcs Map.empty,
               prevSysCpuTimes = getSystemCpuTimes (proc_stat inp),
               usernameCache = cache\<rparr>)"

section \<open>Example data\<close>

text \<open>
  A small system on which the definitions are evaluated: two processes, 42 (\<^verbatim>\<open>bash\<close>, owned
  by uid 1000) and 57 (\<^verbatim>\<open>sleep\<close>, owned by uid 1001, which the account database does not
  know), a process directory that lists them among other entries, and a previous-sample
  store that knows 42 and a process 99 that has ended since.
\<close>

definition ex_cache :: "uid_t \<rightharpoonup> string" where
  "ex_cache = [1000 \<mapsto> ''alice'']"

definition ex_stat42 :: "string list" where
  "ex_stat42 = [''42 (bash) S 1 42 42 0 -1 4194304 100 0 0 0 30 12 0 0 20 0 1 0 100 1000 200'']"

definition ex_status42 :: "string list" where
  "ex_status42 =
     [''Name:'' @ [CHR 0x09] @ ''bash'',
      ''Uid:'' @ [CHR 0x09] @ ''1000'' @ [CHR 0x09] @ ''1000'',
      ''VmRSS:'' @ [CHR 0x09] @ ''  100000 kB'']"

definition ex_stat57 :: "string list" where
  "ex_stat57 = [''57 (sleep) S 42 57 42 0 -1 4194304 9 0 0 0 3 1 0 0 20 0 1 0 900 500 60'']"

definition ex_status57 :: "string list" where
  "ex_status57 =
     [''Name:'' @ [CHR 0x09] @ ''sleep'',
      ''VmRSS:'' @ [CHR 0x09] @ ''     512 kB'',
      ''Uid:'' @ [CHR 0x09] @ ''1001'' @ [CHR 0x09] @ ''1001'']"

definition ex_fs :: procfs where
  "ex_fs =
     \<lparr>proc_dir = Some [''.'', ''..'', ''57'', ''self'', ''42'', ''cpuinfo''],
      stat_file = (\<lambda>p. if p = 42 then Some ex_stat42 else if p = 57 then Some ex_stat57 else None),
      status_file =
        (\<lambda>p. if p = 42 then Some ex_status42 else if p = 57 then Some ex_status57 else None),
      status_file_later =
        (\<lambda>p. if p = 42 then Some ex_status42 else if p = 57 then Some ex_status57 else None)\<rparr>"

definition ex_prev :: "int \<rightharpoonup> llong \<times> llong" where
  "ex_prev = [42 \<mapsto> (20, 10), 99 \<mapsto> (5, 5)]"

definition ex_p42 :: Process where
  "ex_p42 =
     \<lparr>pid = 42, user = ''alice'', name = ''bash'', cpuPercent = 30, memPercent = 1.25,
      memRssKb = 100000, utime = 30, stime = 12\<rparr>"

definition ex_p57 :: Process where
  "ex_p57 =
     \<lparr>pid = 57, user = ''unknown'', name = ''sleep'', cpuPercent = 10, memPercent = 0.0064,
      memRssKb = 512, utime = 3, stime = 1\<rparr>"

text \<open>
  A tick on the example system: the CPU counters were \<^verbatim>\<open>cpu 100 0 50 850 0 0 0 0\<close> one tick
  ago and are \<^verbatim>\<open>cpu 110 0 60 870 0 0 0 0\<close> now, the memory source reports 8000000 KB in
  total and 2000000 KB available, and the monitor sorts by CPU.
\<close>

definition ex_state :: monitor_state where
  "ex_state =
     \<lparr>currentSortMode = BY_CPU,
      prevProcessTimes = ex_prev,
      prevSysCpuTimes = getSystemCpuTimes (Some [''cpu 100 0 50 850 0 0 0 0'']),
      usernameCache = ex_cache\<rparr>"

definition ex_input :: tick_input where
  "ex_input =
     \<lparr>memInfo = (8000000, 2000000),
      proc_stat = Some [''cpu 110 0 60 870 0 0 0 0'', ''cpu0 110 0 60 870 0 0 0 0''],
      proc = ex_fs\<rparr>"

definition ex_cpu_times :: SysCpuTimes where
  "ex_cpu_times =
     \<lparr>SysCpuTimes.user = 110, nice = 0, system = 60, idle = 870, iowait = 0, irq = 0,
      softirq = 0, steal = 0, total = 1040\<rparr>"

definition ex_gathered :: gathered where
  "ex_gathered =
     \<lparr>memTotal = 8000000, memUsed = 6000000, currentSysCpuTimes = ex_cpu_times,
      totalDelta = 40, idleDelta = 20, sysCpuUsage = 50, processes = [ex_p57, ex_p42]\<rparr>"

definition ex_state' :: monitor_state where
  "ex_state' =
     \<lparr>currentSortMode = BY_CPU,
      prevProcessTimes = [42 \<mapsto> (30, 12), 57 \<mapsto> (3, 1)],
      prevSysCpuTimes = ex_cpu_times,
      usernameCache = ex_cache\<rparr>"

text \<open>A counters line whose first two fields add up to one more than \<^verbatim>\<open>LLONG_MAX\<close>.\<close>

definition ex_overflow_line :: string where
  "ex_overflow_line = ''cpu 9223372036854775807 1 0 0 0 0 0 0''"

text \<open>
  Two more ticks on the example system. In the first the store holds, under pid 42, the
  counters of an earlier process that had run longer than the one sampled now (the pid was
  reused). In the second nothing can be measured: the CPU counters have not moved since
  the last tick and the memory source gave no total.
\<close>

definition ex_state_reuse :: monitor_state where
  "ex_state_reuse = ex_state\<lparr>prevProcessTimes := [42 \<mapsto> (100, 50)]\<rparr>"

definition ex_p42_reuse :: Process where
  "ex_p42_reuse = ex_p42\<lparr>cpuPercent := - 270\<rparr>"

definition ex_gathered_reuse :: gathered where
  "ex_gathered_reuse = ex_gathered\<lparr>processes := [ex_p57, ex_p42_reuse]\<rparr>"

definition ex_input_idle :: tick_input where
  "ex_input_idle =
     \<lparr>memInfo = (0, 0), proc_stat = Some [''cpu 100 0 50 850 0 0 0 0''], proc = ex_fs\<rparr>"

definition ex_gathered_idle :: gathered where
  "ex_gathered_idle =
     \<lparr>memTotal = 0, memUsed = 0,
      currentSysCpuTimes = getSystemCpuTimes (Some [''cpu 100 0 50 850 0 0 0 0'']),
      totalDelta = 0, idleDelta = 0, sysCpuUsage = 0,
      processes = [ex_p57\<lparr>cpuPercent := 0, memPercent := 0\<rparr>,
                   ex_p42\<lparr>cpuPercent := 0, memPercent := 0\<rparr>]\<rparr>"

text \<open>The modal's array as the stack leaves it: twenty characters of no meaning.\<close>

definition ex_pidStr0 :: "char list" where
  "ex_pidStr0 = ''xxxxxxxxxxxxxxxxxxxx''"


definition ex_fs_race :: procfs where
  "ex_fs_race =
     ex_fs\<lparr>status_file_later := (\<lambda>p. if p = 57 then Some ex_status57 else None)\<rparr>"

section \<open>Properties\<close>

subsection \<open>Evaluating the parsers\<close>

lemmas parse_defs =
  first_line_def starts_with_def get_string_def get_llong_def get_uid_def get_integer_def
  sstream_def skip_string_def scan_number_def scan_sign_def isspace_c_def isdigit_c_def
  digits_val_def digit_val_def LLONG_MAX_def LLONG_MIN_def UINT_MAX_def INT_MAX_def INT_MIN_def
  stoi_def stol_def strtol_range_def substr_def rtrim_def is_trim_char_def parse_stat_def
  parse_uid_line_def

lemma funpow13: "(f ^^ 13) x = f (f (f (f (f (f (f (f (f (f (f (f (f x))))))))))))"
  by (simp add: eval_nat_numeral)

lemma ex_parse_stat:
  "parse_stat (first_line (Some ex_stat42)) = (30, 12)"
  "parse_stat (first_line (Some ex_stat57)) = (3, 1)"
  by (simp_all add: ex_stat42_def ex_stat57_def parse_defs funpow13 Let_def)

lemma ex_read_status:
  "read_status ex_status42 ([], 0) = Inr (''bash'', 100000)"
  "read_status ex_status57 ([], 0) = Inr (''sleep'', 512)"
  by (simp_all add: ex_status42_def ex_status57_def parse_defs Let_def)

lemma ex_find_uid: "find_uid ex_status42 0 = 1000" "find_uid ex_status57 0 = 1001"
  by (simp_all add: ex_status42_def ex_status57_def parse_defs Let_def)

lemma ex_stoi:
  "stoi ''42'' = Inr 42" "stoi ''57'' = Inr 57"
  "stoi ''.'' = Inl InvalidArgument" "stoi ''..'' = Inl InvalidArgument"
  "stoi ''self'' = Inl InvalidArgument"  "stoi ''cpuinfo'' = Inl InvalidArgument"
  by (simp_all add: parse_defs Let_def)

subsection \<open>The percentages\<close>

lemma to_double_pos: "0 < sint x \<Longrightarrow> to_double x \<noteq> 0"
  by (auto simp only: to_double_def of_int_eq_0_iff)

lemma calc_cpuPercent_eq:
  "calc_cpuPercent d t = Inr (if 0 < sint t then 100 * to_double d / to_double t else 0)"
  by (simp add: calc_cpuPercent_def fdiv_def to_double_pos)

lemma calc_memPercent_eq:
  "calc_memPercent r m = Inr (if 0 < sint m then 100 * to_double r / to_double m else 0)"
  by (simp add: calc_memPercent_def fdiv_def to_double_pos)

lemma calc_sysCpuUsage_eq:
  "calc_sysCpuUsage t i = Inr (if 0 < sint t then 100 * to_double (t - i) / to_double t else 0)"
  by (simp add: calc_sysCpuUsage_def fdiv_def to_double_pos)

subsection \<open>One directory entry, and the scan\<close>

lemma sampleEntry_not_pid:
  "stoi d = Inl e \<Longrightarrow> sampleEntry uc prev fs mem cpu d = Inr None"
  by (simp add: sampleEntry_def)

lemma sampleEntry_Some:
  assumes "sampleEntry uc prev fs mem cpu d = Inr (Some p)"
  shows "stoi d = Inr (pid p)"
    and "cpuPercent p =
           (if 0 < sint cpu
            then 100 * to_double (processTimeDelta prev (pid p) (utime p) (stime p)) / to_double cpu
            else 0)"
    and "memPercent p = (if 0 < sint mem then 100 * to_double (memRssKb p) / to_double mem else 0)"
    and "user p = getUsername uc (status_file_later fs) (pid p)"
    and "name p \<noteq> []"
    and "stat_file fs (pid p) \<noteq> None"
    and "status_file fs (pid p) \<noteq> None"
    and "(utime p, stime p) = parse_stat (first_line (stat_file fs (pid p)))"
  using assms
  by (auto simp: sampleEntry_def calc_cpuPercent_eq calc_memPercent_eq Let_def
      split: sum.splits option.splits prod.splits if_splits)

lemma read_status_no_div: "read_status ls acc \<noteq> Inl DivisionByZero"
  by (induction ls acc rule: read_status.induct)
     (auto simp: substr_def split: sum.splits conv_error.splits)

lemma sampleEntry_no_div: "sampleEntry uc prev fs mem cpu d \<noteq> Inl DivisionByZero"
  using read_status_no_div
  by (auto simp: sampleEntry_def calc_cpuPercent_eq calc_memPercent_eq Let_def
      split: sum.splits option.splits prod.splits if_splits)

lemma scan_entries_mem:
  "scan_entries uc prev fs mem cpu es acc = Inr ps \<Longrightarrow> p \<in> set ps \<Longrightarrow>
     p \<in> set acc \<or> (\<exists>d \<in> set es. sampleEntry uc prev fs mem cpu d = Inr (Some p))"
proof (induction es arbitrary: acc)
  case Nil
  then show ?case by simp
next
  case (Cons e es)
  show ?case
  proof (cases "sampleEntry uc prev fs mem cpu e")
    case (Inl f)
    with Cons.prems show ?thesis by simp
  next
    case (Inr r)
    show ?thesis
    proof (cases r)
      case None
      with Inr Cons.prems have "scan_entries uc prev fs mem cpu es acc = Inr ps" by simp
      from Cons.IH [OF this Cons.prems(2)] show ?thesis by auto
    next
      case (Some q)
      with Inr Cons.prems have "scan_entries uc prev fs mem cpu es (acc @ [q]) = Inr ps" by simp
      from Cons.IH [OF this Cons.prems(2)] Inr Some show ?thesis by auto
    qed
  qed
qed

lemma scan_entries_no_div:
  "scan_entries uc prev fs mem cpu es acc \<noteq> Inl DivisionByZero"
  by (induction es arbitrary: acc) (auto simp: sampleEntry_no_div split: sum.splits option.splits)

lemma getProcesses_mem:
  "getProcesses uc prev fs mem cpu = Inr ps \<Longrightarrow> p \<in> set ps \<Longrightarrow>
     \<exists>es. proc_dir fs = Some es \<and> (\<exists>d \<in> set es. sampleEntry uc prev fs mem cpu d = Inr (Some p))"
  by (auto simp: getProcesses_def split: option.splits dest: scan_entries_mem)

lemma getProcesses_no_div: "getProcesses uc prev fs mem cpu \<noteq> Inl DivisionByZero"
  by (simp add: getProcesses_def scan_entries_no_div split: option.splits)

subsection \<open>The example system\<close>

lemma ex_sampleEntry:
  "sampleEntry ex_cache ex_prev ex_fs 8000000 40 ''42'' = Inr (Some ex_p42)"
  "sampleEntry ex_cache ex_prev ex_fs 8000000 40 ''57'' = Inr (Some ex_p57)"
  using ex_parse_stat ex_read_status ex_find_uid
  by (simp_all add: sampleEntry_def ex_stoi ex_fs_def ex_prev_def
      getUsername_def ex_cache_def processTimeDelta_def calc_cpuPercent_def calc_memPercent_def
      fdiv_def to_double_def ex_p42_def ex_p57_def)

lemma ex_getProcesses:
  "getProcesses ex_cache ex_prev ex_fs 8000000 40 = Inr [ex_p57, ex_p42]"
proof -
  have "proc_dir ex_fs = Some [''.'', ''..'', ''57'', ''self'', ''42'', ''cpuinfo'']"
    by (simp add: ex_fs_def)
  then show ?thesis
    by (simp add: getProcesses_def ex_sampleEntry sampleEntry_not_pid [OF ex_stoi(3)]
        sampleEntry_not_pid [OF ex_stoi(4)] sampleEntry_not_pid [OF ex_stoi(5)]
        sampleEntry_not_pid [OF ex_stoi(6)])
qed

subsection \<open>The tick\<close>

lemma ex_getSystemCpuTimes:
  "getSystemCpuTimes (Some [''cpu 100 0 50 850 0 0 0 0'']) =
     \<lparr>SysCpuTimes.user = 100, nice = 0, system = 50, idle = 850, iowait = 0, irq = 0,
      softirq = 0, steal = 0, total = 1000\<rparr>"
  "getSystemCpuTimes (Some (''cpu 110 0 60 870 0 0 0 0'' # rest)) = ex_cpu_times"
  by (simp_all add: getSystemCpuTimes_def ex_cpu_times_def parse_defs Let_def)

lemma gather_Inr:
  assumes "gather s inp = Inr g"
  shows "totalDelta g =
           SysCpuTimes.total (getSystemCpuTimes (proc_stat inp)) -
           SysCpuTimes.total (prevSysCpuTimes s)"
    and "idleDelta g = idle (getSystemCpuTimes (proc_stat inp)) - idle (prevSysCpuTimes s)"
    and "currentSysCpuTimes g = getSystemCpuTimes (proc_stat inp)"
    and "memTotal g = fst (memInfo inp)"
    and "memUsed g = fst (memInfo inp) - snd (memInfo inp)"
    and "sysCpuUsage g =
           (if 0 < sint (totalDelta g)
            then 100 * to_double (totalDelta g - idleDelta g) / to_double (totalDelta g)
            else 0)"
    and "getProcesses (usernameCache s) (prevProcessTimes s) (proc inp) (memTotal g) (totalDelta g) =
           Inr (processes g)"
  using assms
  by (auto simp: gather_def calc_sysCpuUsage_eq Let_def split: prod.splits sum.splits)

lemma gather_no_div: "gather s inp \<noteq> Inl DivisionByZero"
  by (auto simp: gather_def calc_sysCpuUsage_eq Let_def getProcesses_no_div
      split: prod.splits sum.splits)

lemma ex_gather: "gather ex_state ex_input = Inr ex_gathered"
  using ex_getProcesses
  by (simp add: gather_def ex_state_def ex_input_def ex_gathered_def ex_getSystemCpuTimes
      ex_cpu_times_def calc_sysCpuUsage_def fdiv_def to_double_def)

lemma ex_std_sort: "std_sort (comparator BY_CPU) [ex_p57, ex_p42] [ex_p42, ex_p57]"
  by (simp add: std_sort_def comparator_def compareByCpu_def ex_p42_def ex_p57_def)

lemma ex_main_tick: "main_tick ex_state ex_input ex_gathered [ex_p42, ex_p57] ex_state'"
  using ex_gather ex_std_sort
  by (simp add: main_tick_def update_previous_def record_times_def ex_state_def ex_state'_def
      ex_gathered_def ex_p42_def ex_p57_def)

subsection \<open>The counters and their sum\<close>

lemma sint_word_of_int_in_range:
  "LLONG_MIN \<le> k \<Longrightarrow> k \<le> LLONG_MAX \<Longrightarrow> sint (word_of_int k :: 64 word) = k"
  by (simp add: sint_sbintrunc' signed_take_bit_int_eq_self LLONG_MIN_def LLONG_MAX_def)

lemma total_is_word_sum:
  "SysCpuTimes.total (getSystemCpuTimes f) =
     SysCpuTimes.user (getSystemCpuTimes f) + nice (getSystemCpuTimes f) +
     system (getSystemCpuTimes f) + idle (getSystemCpuTimes f) + iowait (getSystemCpuTimes f) +
     irq (getSystemCpuTimes f) + softirq (getSystemCpuTimes f) + steal (getSystemCpuTimes f)"
  by (simp add: getSystemCpuTimes_def SysCpuTimes_zero_def Let_def split: prod.splits)

lemma word_sum_of_int:
  fixes a b c d e f g h :: "64 word"
  shows "a + b + c + d + e + f + g + h =
     word_of_int (sint a + sint b + sint c + sint d + sint e + sint f + sint g + sint h)"
  by simp

lemma ex_field_sum: "field_sum ex_cpu_times = 1040"
  by (simp add: field_sum_def ex_cpu_times_def)

text \<open>Reading a well-formed counters line field by field.\<close>

lemma isdigit_c_not_space: "isdigit_c c \<Longrightarrow> \<not> isspace_c c"
  by (auto simp: isdigit_c_def isspace_c_def)

lemma isdigit_c_not_sign: "isdigit_c c \<Longrightarrow> c \<noteq> CHR ''-'' \<and> c \<noteq> CHR ''+''"
  by (auto simp: isdigit_c_def)

lemma dropWhile_blanks:
  assumes "blanks w" and "is_numeral d"
  shows "dropWhile isspace_c (w @ d @ r) = d @ r"
proof -
  from assms(2) obtain c t where d: "d = c # t" and c: "isdigit_c c"
    by (cases d) (auto simp: is_numeral_def)
  from assms(1) have "\<forall>x \<in> set w. isspace_c x" by (simp add: blanks_def)
  then have "dropWhile isspace_c (w @ d @ r) = dropWhile isspace_c (d @ r)"
    by (simp add: dropWhile_append)
  with d isdigit_c_not_space [OF c] show ?thesis by simp
qed

lemma scan_number_numeral:
  assumes "is_numeral d" and "r = [] \<or> \<not> isdigit_c (hd r)"
  shows "scan_number (d @ r) = (False, d, r)"
proof -
  from assms(1) obtain c t where d: "d = c # t" and c: "isdigit_c c"
    and all: "\<forall>x \<in> set d. isdigit_c x"
    by (cases d) (auto simp: is_numeral_def)
  from d isdigit_c_not_sign [OF c] have s: "scan_sign (d @ r) = (False, d @ r)"
    by (simp add: scan_sign_def)
  from assms(2) have r: "takeWhile isdigit_c r = []" "dropWhile isdigit_c r = r"
    by (cases r; simp)+
  from all r have "takeWhile isdigit_c (d @ r) = d" "dropWhile isdigit_c (d @ r) = r"
    by (simp_all add: takeWhile_append dropWhile_append)
  with s show ?thesis by (simp add: scan_number_def)
qed

lemma get_llong_counter:
  assumes f: "counter_field w d" and r: "r = [] \<or> \<not> isdigit_c (hd r)"
  shows "get_llong (w @ d @ r, False) old = (counter_val d, (r, False))"
proof -
  from f have b: "blanks w" and n: "is_numeral d" and m: "int (digits_val d) \<le> LLONG_MAX"
    by (simp_all add: counter_field_def)
  from n have ne: "d @ r \<noteq> []" "d \<noteq> []" by (auto simp: is_numeral_def)
  have lo: "LLONG_MIN < 0" by (simp add: LLONG_MIN_def)
  show ?thesis
    unfolding get_llong_def get_integer_def
    using ne lo m
    by (simp add: dropWhile_blanks [OF b n] scan_number_numeral [OF n r] counter_val_def)
qed

lemma blanks_hd: "blanks w \<Longrightarrow> (w @ x) \<noteq> [] \<and> isspace_c (hd (w @ x)) \<and> \<not> isdigit_c (hd (w @ x))"
  by (cases w) (auto simp: blanks_def dest: isdigit_c_not_space)

lemma get_string_cpu:
  assumes "blanks w"
  shows "get_string (sstream (''cpu'' @ w @ x)) old = (''cpu'', (w @ x, False))"
proof -
  from assms obtain c t where w: "w = c # t" and c: "isspace_c c"
    by (cases w) (auto simp: blanks_def)
  have l: "\<not> isspace_c CHR ''c''" "\<not> isspace_c CHR ''p''" "\<not> isspace_c CHR ''u''"
    by (simp_all add: isspace_c_def)
  with w c show ?thesis by (simp add: get_string_def sstream_def)
qed

lemma getSystemCpuTimes_fields:
  assumes f: "counter_field w1 d1" "counter_field w2 d2" "counter_field w3 d3"
      "counter_field w4 d4" "counter_field w5 d5" "counter_field w6 d6"
      "counter_field w7 d7" "counter_field w8 d8"
    and r: "r = [] \<or> \<not> isdigit_c (hd r)"
  shows "getSystemCpuTimes
           (Some ((''cpu'' @ w1 @ d1 @ w2 @ d2 @ w3 @ d3 @ w4 @ d4 @ w5 @ d5 @ w6 @ d6 @
                   w7 @ d7 @ w8 @ d8 @ r) # ls)) =
         \<lparr>SysCpuTimes.user = counter_val d1, nice = counter_val d2, system = counter_val d3,
          idle = counter_val d4, iowait = counter_val d5, irq = counter_val d6,
          softirq = counter_val d7, steal = counter_val d8,
          total = counter_val d1 + counter_val d2 + counter_val d3 + counter_val d4 +
                  counter_val d5 + counter_val d6 + counter_val d7 + counter_val d8\<rparr>"
proof -
  from f have b: "blanks w1" "blanks w2" "blanks w3" "blanks w4" "blanks w5" "blanks w6"
    "blanks w7" "blanks w8"
    by (simp_all add: counter_field_def)
  have nd: "x = [] \<or> \<not> isdigit_c (hd x)" if "\<exists>w y. blanks w \<and> x = w @ y" for x
    using that blanks_hd by blast
  have g: "get_llong (w @ d @ w' @ y, False) old = (counter_val d, (w' @ y, False))"
    if "counter_field w d" "blanks w'" for w d w' y old
    by (rule get_llong_counter [OF that(1)]) (rule nd, use that(2) in blast)
  have sw: "starts_with (''cpu'' @ x) ''cpu''" for x by (simp add: starts_with_def)
  have fl: "first_line (Some (l # ls)) = l" for l ls by (simp add: first_line_def)
  show ?thesis
    by (simp only: getSystemCpuTimes_def fl Let_def sw if_True get_string_cpu [OF b(1)]
        case_prod_conv g [OF f(1) b(2)] g [OF f(2) b(3)] g [OF f(3) b(4)] g [OF f(4) b(5)]
        g [OF f(5) b(6)] g [OF f(6) b(7)] g [OF f(7) b(8)] get_llong_counter [OF f(8) r])
qed

lemma sint_counter_val:
  "int (digits_val d) \<le> LLONG_MAX \<Longrightarrow> sint (counter_val d) = int (digits_val d)"
  unfolding counter_val_def
  by (rule sint_word_of_int_in_range) (simp_all add: LLONG_MIN_def)

lemma counter_fieldD: "counter_field w d \<Longrightarrow> int (digits_val d) \<le> LLONG_MAX"
  by (simp add: counter_field_def)

lemma ex_counter_fields:
  "counter_field ''  '' ''110''" "counter_field '' '' ''0''" "counter_field '' '' ''60''"
  "counter_field '' '' ''870''"
  by (simp_all add: counter_field_def blanks_def is_numeral_def isspace_c_def isdigit_c_def
      digits_val_def digit_val_def LLONG_MAX_def)

lemma ex_digits_val:
  "digits_val ''110'' = 110" "digits_val ''0'' = 0" "digits_val ''60'' = 60"
  "digits_val ''870'' = 870"
  by (simp_all add: digits_val_def digit_val_def)

subsection \<open>The previous-sample store\<close>

lemma record_times_append:
  "record_times (ps @ [p]) m = (record_times ps m)(pid p \<mapsto> (utime p, stime p))"
  by (simp add: record_times_def)

lemma dom_record_times: "dom (record_times ps m) = dom m \<union> pid ` set ps"
proof (induction ps rule: rev_induct)
  case Nil
  show ?case by (simp add: record_times_def)
next
  case (snoc p ps)
  have "dom (record_times (ps @ [p]) m) = insert (pid p) (dom (record_times ps m))"
    by (simp add: record_times_append)
  with snoc show ?case by auto
qed

lemma record_times_Some:
  "record_times ps m k = Some v \<Longrightarrow>
     m k = Some v \<or> (\<exists>p \<in> set ps. pid p = k \<and> v = (utime p, stime p))"
proof (induction ps arbitrary: v rule: rev_induct)
  case Nil
  then show ?case by (simp add: record_times_def)
next
  case (snoc p ps)
  then show ?case by (auto simp: record_times_append split: if_splits)
qed

lemma record_times_distinct:
  "distinct (map pid ps) \<Longrightarrow> p \<in> set ps \<Longrightarrow>
     record_times ps m (pid p) = Some (utime p, stime p)"
proof (induction ps rule: rev_induct)
  case Nil
  then show ?case by simp
next
  case (snoc q ps)
  show ?case
  proof (cases "p = q")
    case True
    then show ?thesis by (simp add: record_times_append)
  next
    case False
    from snoc.prems have d: "distinct (map pid ps)" and nq: "pid q \<notin> pid ` set ps"
      by simp_all
    from False snoc.prems have m: "p \<in> set ps" by simp
    with nq have "pid p \<noteq> pid q" by (metis imageI)
    with snoc.IH [OF d m] show ?thesis by (simp add: record_times_append)
  qed
qed

lemma std_sort_set: "std_sort cmp xs ys \<Longrightarrow> set ys = set xs"
  by (auto simp: std_sort_def dest: mset_eq_setD)

lemma std_sort_distinct_pid:
  "std_sort cmp xs ys \<Longrightarrow> distinct (map pid ys) = distinct (map pid xs)"
proof -
  assume "std_sort cmp xs ys"
  then have "mset (map pid ys) = mset (map pid xs)" by (simp add: std_sort_def)
  then show ?thesis by (rule mset_eq_imp_distinct_iff)
qed

lemma processTimeDelta_new:
  "prev k = None \<Longrightarrow> processTimeDelta prev k ut st = ut + st - 0"
  by (simp add: processTimeDelta_def)

subsection \<open>The example system under other stores and totals\<close>

lemma ex_sampleEntry_any:
  "sampleEntry ex_cache prev ex_fs mem cpu ''42'' =
     Inr (Some (ex_p42
       \<lparr>cpuPercent :=
          (if 0 < sint cpu then 100 * to_double (processTimeDelta prev 42 30 12) / to_double cpu
           else 0),
        memPercent := (if 0 < sint mem then 100 * to_double 100000 / to_double mem else 0)\<rparr>))"
  "sampleEntry ex_cache prev ex_fs mem cpu ''57'' =
     Inr (Some (ex_p57
       \<lparr>cpuPercent :=
          (if 0 < sint cpu then 100 * to_double (processTimeDelta prev 57 3 1) / to_double cpu
           else 0),
        memPercent := (if 0 < sint mem then 100 * to_double 512 / to_double mem else 0)\<rparr>))"
  using ex_parse_stat ex_read_status ex_find_uid
  by (simp_all add: sampleEntry_def ex_stoi ex_fs_def getUsername_def ex_cache_def
      calc_cpuPercent_eq calc_memPercent_eq ex_p42_def ex_p57_def)

lemma ex_getProcesses_any:
  "getProcesses ex_cache prev ex_fs mem cpu =
     Inr [ex_p57
       \<lparr>cpuPercent :=
          (if 0 < sint cpu then 100 * to_double (processTimeDelta prev 57 3 1) / to_double cpu
           else 0),
        memPercent := (if 0 < sint mem then 100 * to_double 512 / to_double mem else 0)\<rparr>,
      ex_p42
       \<lparr>cpuPercent :=
          (if 0 < sint cpu then 100 * to_double (processTimeDelta prev 42 30 12) / to_double cpu
           else 0),
        memPercent := (if 0 < sint mem then 100 * to_double 100000 / to_double mem else 0)\<rparr>]"
proof -
  have "proc_dir ex_fs = Some [''.'', ''..'', ''57'', ''self'', ''42'', ''cpuinfo'']"
    by (simp add: ex_fs_def)
  then show ?thesis
    by (simp add: getProcesses_def ex_sampleEntry_any sampleEntry_not_pid [OF ex_stoi(3)]
        sampleEntry_not_pid [OF ex_stoi(4)] sampleEntry_not_pid [OF ex_stoi(5)]
        sampleEntry_not_pid [OF ex_stoi(6)])
qed

lemma ex_gather_reuse: "gather ex_state_reuse ex_input = Inr ex_gathered_reuse"
  by (simp add: gather_def ex_state_reuse_def ex_state_def ex_input_def ex_gathered_reuse_def
      ex_gathered_def ex_getSystemCpuTimes ex_cpu_times_def calc_sysCpuUsage_def fdiv_def
      to_double_def ex_getProcesses_any processTimeDelta_def ex_p42_reuse_def ex_p42_def
      ex_p57_def)

lemma ex_gather_idle: "gather ex_state ex_input_idle = Inr ex_gathered_idle"
  by (simp add: gather_def ex_state_def ex_input_idle_def ex_gathered_idle_def
      ex_getSystemCpuTimes calc_sysCpuUsage_def ex_getProcesses_any)

text \<open>
  \<^verbatim>\<open>drawSystemInfo\<close> divides by \<^verbatim>\<open>memTotal\<close> with no test: with no memory total the
  quotient is not a finite number.
\<close>

lemma drawSystemInfo_no_memory:
  "drawSystemInfo 0 0 0 = Inl DivisionByZero"
  by (simp add: drawSystemInfo_def to_int_def std_round_def fdiv_def to_double_def
      INT_MIN_def INT_MAX_def)

text \<open>A directory whose names denote distinct pids gives samples with distinct pids.\<close>

lemma entry_pids_Cons:
  "entry_pids (d # es) = (case stoi d of Inr n \<Rightarrow> n # entry_pids es | Inl e \<Rightarrow> entry_pids es)"
  by (simp add: entry_pids_def List.map_filter_simps split: sum.splits)

lemma scan_entries_distinct:
  "scan_entries uc prev fs mem cpu es acc = Inr ps \<Longrightarrow>
     distinct (map pid acc @ entry_pids es) \<Longrightarrow> distinct (map pid ps)"
proof (induction es arbitrary: acc)
  case Nil
  then show ?case by (simp add: entry_pids_def List.map_filter_simps)
next
  case (Cons e es)
  show ?case
  proof (cases "sampleEntry uc prev fs mem cpu e")
    case (Inl f)
    with Cons.prems show ?thesis by simp
  next
    case (Inr r)
    show ?thesis
    proof (cases r)
      case None
      with Inr Cons.prems(1) have s: "scan_entries uc prev fs mem cpu es acc = Inr ps" by simp
      from Cons.prems(2) have "distinct (map pid acc @ entry_pids es)"
        by (auto simp: entry_pids_Cons split: sum.splits)
      from Cons.IH [OF s this] show ?thesis .
    next
      case (Some q)
      with Inr Cons.prems(1)
      have s: "scan_entries uc prev fs mem cpu es (acc @ [q]) = Inr ps" by simp
      from Inr Some have "stoi e = Inr (pid q)" by (simp add: sampleEntry_Some(1))
      with Cons.prems(2) have "distinct (map pid (acc @ [q]) @ entry_pids es)"
        by (simp add: entry_pids_Cons)
      from Cons.IH [OF s this] show ?thesis .
    qed
  qed
qed

lemma getProcesses_distinct_pids:
  assumes "getProcesses uc prev fs mem cpu = Inr ps" and "proc_dir fs = Some es"
    and "distinct (entry_pids es)"
  shows "distinct (map pid ps)"
  using assms scan_entries_distinct [of uc prev fs mem cpu es "[]" ps]
  by (simp add: getProcesses_def)

lemma ex_entry_pids: "entry_pids [''.'', ''..'', ''57'', ''self'', ''42'', ''cpuinfo''] = [57, 42]"
  by (simp add: entry_pids_Cons ex_stoi entry_pids_def List.map_filter_simps)

subsection \<open>Sorting\<close>

lemma std_sort_pid_sorted:
  "std_sort compareByPid xs ys \<Longrightarrow> sorted (map pid ys)"
  by (simp add: std_sort_def compareByPid_def sorted_map not_less)

lemma std_sort_pid_unique:
  assumes d: "inj_on pid (set xs)"
    and ys: "std_sort compareByPid xs ys" and zs: "std_sort compareByPid xs zs"
  shows "ys = zs"
proof -
  have sy: "set ys = set xs" and sz: "set zs = set xs"
    using ys zs by (simp_all add: std_sort_set)
  from ys have "mset (map pid ys) = mset (map pid xs)" by (simp add: std_sort_def)
  from properties_for_sort [OF this std_sort_pid_sorted [OF ys]]
  have "sort (map pid xs) = map pid ys" .
  moreover from zs have "mset (map pid zs) = mset (map pid xs)" by (simp add: std_sort_def)
  from properties_for_sort [OF this std_sort_pid_sorted [OF zs]]
  have "sort (map pid xs) = map pid zs" .
  ultimately have "map pid ys = map pid zs" by simp
  moreover from d have "inj_on pid (set ys \<union> set zs)" by (simp add: sy sz)
  ultimately show ?thesis by (simp add: inj_on_map_eq_map)
qed

lemma std_sort_again: "std_sort cmp xs ys \<Longrightarrow> std_sort cmp ys ys"
  by (simp add: std_sort_def)

lemma std_sort_pid_idem:
  assumes "inj_on pid (set xs)"
    and ys: "std_sort compareByPid xs ys" and zs: "std_sort compareByPid ys zs"
  shows "zs = ys"
proof -
  from assms(1) std_sort_set [OF ys] have "inj_on pid (set ys)" by simp
  from std_sort_pid_unique [OF this zs std_sort_again [OF ys]] show ?thesis .
qed

lemma std_sort_cpu_front:
  assumes ys: "std_sort compareByCpu xs ys" and ne: "xs \<noteq> []"
  shows "ys \<noteq> [] \<and> hd ys \<in> set xs \<and> (\<forall>p \<in> set xs. cpuPercent p \<le> cpuPercent (hd ys))"
proof -
  from ys have s: "set ys = set xs" by (rule std_sort_set)
  with ne have "ys \<noteq> []" by auto
  then obtain y rest where c: "ys = y # rest" by (cases ys) auto
  from ys c have "\<forall>b \<in> set rest. \<not> cpuPercent b > cpuPercent y"
    by (simp add: std_sort_def compareByCpu_def)
  with c s show ?thesis by (auto simp: not_less)
qed

lemma std_sort_exists: "\<exists>ys. std_sort (comparator mode) xs ys"
proof (cases mode)
  case BY_CPU
  have "sorted (map (\<lambda>p. - cpuPercent p) (sort_key (\<lambda>p. - cpuPercent p) xs))"
    by (rule sorted_sort_key)
  then have "std_sort compareByCpu xs (sort_key (\<lambda>p. - cpuPercent p) xs)"
    by (simp add: std_sort_def compareByCpu_def sorted_map not_less)
  with BY_CPU show ?thesis by (auto simp: comparator_def)
next
  case BY_MEM
  have "sorted (map (\<lambda>p. - memPercent p) (sort_key (\<lambda>p. - memPercent p) xs))"
    by (rule sorted_sort_key)
  then have "std_sort compareByMem xs (sort_key (\<lambda>p. - memPercent p) xs)"
    by (simp add: std_sort_def compareByMem_def sorted_map not_less)
  with BY_MEM show ?thesis by (auto simp: comparator_def)
next
  case BY_PID
  have "sorted (map pid (sort_key pid xs))"
    by (rule sorted_sort_key)
  then have "std_sort compareByPid xs (sort_key pid xs)"
    by (simp add: std_sort_def compareByPid_def sorted_map not_less)
  with BY_PID show ?thesis by (auto simp: comparator_def)
qed

subsection \<open>The kill modal\<close>

lemma isdigit_char_of: "isdigit ch \<Longrightarrow> isdigit_c (char_of ch)"
proof -
  assume "isdigit ch"
  then have r: "48 \<le> ch" "ch \<le> 57" by (simp_all add: isdigit_def)
  then have "ch mod 256 = ch" by simp
  then have "(of_char (char_of ch) :: int) = ch" by simp
  moreover have "(of_char (char_of ch) :: int) = int (of_char (char_of ch))"
    by (simp add: of_char_def)
  ultimately have "int (of_char (char_of ch)) = ch" by simp
  with r show ?thesis by (auto simp: isdigit_c_def)
qed

lemma isdigit_c_not_nul: "isdigit_c c \<Longrightarrow> c \<noteq> CHR 0x00"
  by (auto simp: isdigit_c_def)

lemma take_update_snoc:
  "n < length xs \<Longrightarrow> take (Suc n) (xs[n := x]) = take n xs @ [x]"
  by (simp add: take_Suc_conv_app_nth)


lemma buffer_okD:
  "buffer_ok p i \<Longrightarrow> length p = 20 \<and> 0 \<le> i \<and> i \<le> 19 \<and> nat i < 20 \<and> nat i < length p \<and>
     (\<forall>c \<in> set (take (nat i) p). isdigit_c c)"
  by (auto simp: buffer_ok_def)

lemma loop_body_cases:
  assumes "0 \<le> i" and "nat i < length p"
  shows "loop_body p i ch = Break (p, - 1) \<or>
         loop_body p i ch = Break (p[nat i := CHR 0x00], i) \<or>
         (loop_body p i ch = Again (p, i - 1) \<and> 0 < i) \<or>
         loop_body p i ch = Again (p, i) \<or>
         (loop_body p i ch = Again (p[nat i := char_of ch], i + 1) \<and> isdigit ch \<and> i < 19)"
  using assms unfolding loop_body_def by (simp only: if_True simp_thms split: if_split) blast


lemma loop_body_no_fault: "buffer_ok p i \<Longrightarrow> loop_body p i ch \<noteq> Fault f"
  using loop_body_cases [of i p ch] buffer_okD [of p i] by auto

lemma loop_body_again:
  assumes ok: "buffer_ok p i" and ag: "loop_body p i ch = Again (p', i')"
  shows "buffer_ok p' i'"
proof -
  from buffer_okD [OF ok] have len: "length p = 20" and lo: "0 \<le> i" and hi: "i \<le> 19"
    and inb: "nat i < length p" and dig: "\<forall>c \<in> set (take (nat i) p). isdigit_c c"
    by simp_all
  from loop_body_cases [OF lo inb, of ch] ag
  consider (erase) "p' = p" "i' = i - 1" "0 < i"
    | (same) "p' = p" "i' = i"
    | (digit) "p' = p[nat i := char_of ch]" "i' = i + 1" "isdigit ch" "i < 19"
    by auto
  then show ?thesis
  proof cases
    case erase
    have "set (take (nat (i - 1)) p) \<subseteq> set (take (nat i) p)"
      by (rule set_take_subset_set_take) simp
    with dig have "\<forall>c \<in> set (take (nat (i - 1)) p). isdigit_c c" by blast
    with len lo hi erase(3) show ?thesis unfolding buffer_ok_def erase(1,2) by simp
  next
    case same
    with ok show ?thesis by simp
  next
    case digit
    from lo have "nat (i + 1) = Suc (nat i)" by simp
    with take_update_snoc [OF inb, of "char_of ch"]
    have "take (nat (i + 1)) (p[nat i := char_of ch]) = take (nat i) p @ [char_of ch]"
      by simp
    with dig isdigit_char_of [OF digit(3)]
    have "\<forall>c \<in> set (take (nat (i + 1)) (p[nat i := char_of ch])). isdigit_c c" by simp
    with len lo digit(4) show ?thesis unfolding buffer_ok_def digit(1,2) by simp
  qed
qed


lemma c_str_terminated:
  assumes "\<forall>c \<in> set xs. isdigit_c c"
  shows "c_str (xs @ CHR 0x00 # ys) = xs"
proof -
  from assms have "\<forall>c \<in> set xs. c \<noteq> CHR 0x00" by (auto dest: isdigit_c_not_nul)
  then show ?thesis unfolding c_str_def by (subst takeWhile_tail) auto
qed

lemma loop_body_break:
  assumes ok: "buffer_ok p i" and br: "loop_body p i ch = Break (p', i')"
  shows "i' = - 1 \<or>
           (0 \<le> i' \<and> i' \<le> 19 \<and> length p' = 20 \<and> c_str p' = take (nat i') p' \<and>
            CHR 0x00 \<in> set p' \<and> (\<forall>c \<in> set (c_str p'). isdigit_c c))"
proof -
  from buffer_okD [OF ok] have len: "length p = 20" and lo: "0 \<le> i" and hi: "i \<le> 19"
    and inb: "nat i < length p" and dig: "\<forall>c \<in> set (take (nat i) p). isdigit_c c"
    by simp_all
  from loop_body_cases [OF lo inb, of ch] br
  consider (esc) "i' = - 1" | (enter) "p' = p[nat i := CHR 0x00]" "i' = i"
    by auto
  then show ?thesis
  proof cases
    case esc
    then show ?thesis by simp
  next
    case enter
    have split: "p[nat i := CHR 0x00] = take (nat i) p @ CHR 0x00 # drop (Suc (nat i)) p"
      using inb by (rule upd_conv_take_nth_drop)
    have c: "c_str (p[nat i := CHR 0x00]) = take (nat i) p"
      by (subst split) (rule c_str_terminated [OF dig])
    have t: "take (nat i) (p[nat i := CHR 0x00]) = take (nat i) p" by simp
    have m: "CHR 0x00 \<in> set (p[nat i := CHR 0x00])"
      using inb by (rule set_update_memI)
    from c t m dig len lo hi show ?thesis unfolding enter by simp
  qed
qed


lemma loop_heads_ok:
  "buffer_ok p i \<Longrightarrow> (q, j) \<in> set (loop_heads p i keys) \<Longrightarrow> buffer_ok q j"
proof (induction keys arbitrary: p i)
  case Nil
  then show ?case by simp
next
  case (Cons ch keys)
  show ?case
  proof (cases "loop_body p i ch")
    case (Again r)
    obtain p' i' where r: "r = (p', i')" by (cases r)
    from loop_body_again [OF Cons.prems(1)] Again r have "buffer_ok p' i'" by simp
    from Cons.IH [OF this] Cons.prems Again r show ?thesis by auto
  next
    case (Break r)
    with Cons.prems show ?thesis by auto
  next
    case (Fault f)
    with Cons.prems show ?thesis by auto
  qed
qed

lemma input_loop_no_fault: "buffer_ok p i \<Longrightarrow> input_loop p i keys \<noteq> Stopped f"
proof (induction keys arbitrary: p i)
  case Nil
  show ?case by simp
next
  case (Cons ch keys)
  show ?case
  proof (cases "loop_body p i ch")
    case (Again r)
    obtain q j where r: "r = (q, j)" by (cases r)
    from loop_body_again [OF Cons.prems] Again r have "buffer_ok q j" by simp
    from Cons.IH [OF this] Again r show ?thesis by simp
  next
    case (Break r)
    then show ?thesis by simp
  next
    case (Fault g)
    with loop_body_no_fault [OF Cons.prems] show ?thesis by simp
  qed
qed

lemma input_loop_done:
  "buffer_ok p i \<Longrightarrow> input_loop p i keys = Done (p', i') \<Longrightarrow>
     i' = - 1 \<or>
     (0 \<le> i' \<and> i' \<le> 19 \<and> length p' = 20 \<and> c_str p' = take (nat i') p' \<and>
      CHR 0x00 \<in> set p' \<and> (\<forall>c \<in> set (c_str p'). isdigit_c c))"
proof (induction keys arbitrary: p i)
  case Nil
  then show ?case by simp
next
  case (Cons ch keys)
  show ?case
  proof (cases "loop_body p i ch")
    case (Again r)
    obtain q j where r: "r = (q, j)" by (cases r)
    from loop_body_again [OF Cons.prems(1)] Again r have ok: "buffer_ok q j" by simp
    from Cons.prems(2) Again r have "input_loop q j keys = Done (p', i')" by simp
    from Cons.IH [OF ok this] show ?thesis .
  next
    case (Break r)
    with Cons.prems(2) have "loop_body p i ch = Break (p', i')" by simp
    from loop_body_break [OF Cons.prems(1) this] show ?thesis .
  next
    case (Fault g)
    with Cons.prems(2) show ?thesis by simp
  qed
qed

lemma buffer_ok_start: "length pidStr0 = 20 \<Longrightarrow> buffer_ok pidStr0 0"
  by (simp add: buffer_ok_def)

lemma stoi_digits:
  assumes "s \<noteq> []" and "\<forall>c \<in> set s. isdigit_c c"
  shows "stoi s \<noteq> Inl InvalidArgument"
proof -
  from assms obtain c t where s: "s = c # t" by (cases s) auto
  with assms have c: "isdigit_c c" by simp
  then have ns: "\<not> isspace_c c" and np: "c \<noteq> CHR ''-''" "c \<noteq> CHR ''+''"
    by (auto simp: isdigit_c_def isspace_c_def)
  have "takeWhile isdigit_c s = s" using assms(2) by (simp add: takeWhile_eq_all_conv)
  with s ns np assms(1) show ?thesis
    by (simp add: stoi_def strtol_range_def scan_number_def scan_sign_def Let_def)
qed

lemma stoi_empty: "stoi [] = Inl InvalidArgument"
  by (simp add: stoi_def strtol_range_def scan_number_def scan_sign_def)

text \<open>Keys that neither confirm nor cancel keep the loop going.\<close>

lemma input_loop_append:
  "buffer_ok p i \<Longrightarrow> KEY_ESC \<notin> set ks \<Longrightarrow> KEY_ENTER \<notin> set ks \<Longrightarrow>
     \<exists>q j. buffer_ok q j \<and> input_loop p i (ks @ rest) = input_loop q j rest"
proof (induction ks arbitrary: p i)
  case Nil
  then show ?case by auto
next
  case (Cons ch ks)
  from Cons.prems have ne: "ch \<noteq> KEY_ESC" "ch \<noteq> KEY_ENTER" by auto
  from buffer_okD [OF Cons.prems(1)] have lo: "0 \<le> i" and inb: "nat i < length p" by simp_all
  have nb: "loop_body p i ch \<noteq> Break r" for r
    using ne by (simp add: loop_body_def)
  show ?case
  proof (cases "loop_body p i ch")
    case (Again r)
    obtain q j where r: "r = (q, j)" by (cases r)
    from loop_body_again [OF Cons.prems(1)] Again r have ok: "buffer_ok q j" by simp
    from Cons.IH [OF ok] Cons.prems(2,3) obtain q' j' where
      "buffer_ok q' j'" "input_loop q j (ks @ rest) = input_loop q' j' rest" by auto
    with Again r show ?thesis by auto
  next
    case (Break r)
    with nb [of r] show ?thesis by blast
  next
    case (Fault g)
    with loop_body_no_fault [OF Cons.prems(1)] show ?thesis by simp
  qed
qed


lemma isdigit_not_control:
  "isdigit k \<Longrightarrow> k \<noteq> KEY_ESC \<and> k \<noteq> KEY_ENTER \<and> k \<noteq> KEY_BACKSPACE \<and> k \<noteq> KEY_DEL"
  by (auto simp: isdigit_def KEY_ESC_def KEY_ENTER_def KEY_BACKSPACE_def KEY_DEL_def)

lemma loop_body_digit:
  assumes "buffer_ok p i" and "isdigit k" and "i < 19"
  shows "loop_body p i k = Again (p[nat i := char_of k], i + 1)"
  using buffer_okD [OF assms(1)] isdigit_not_control [OF assms(2)] assms(2,3)
  by (simp add: loop_body_def)

lemma loop_body_enter:
  assumes "buffer_ok p i"
  shows "loop_body p i KEY_ENTER = Break (p[nat i := CHR 0x00], i)"
  using buffer_okD [OF assms] by (simp add: loop_body_def KEY_ENTER_def KEY_ESC_def)

lemma loop_body_esc: "loop_body p i KEY_ESC = Break (p, - 1)"
  by (simp add: loop_body_def)

text \<open>Typing digits that fit appends them to the buffer.\<close>

lemma input_loop_digits:
  "buffer_ok p i \<Longrightarrow> \<forall>k \<in> set ds. isdigit k \<Longrightarrow> i + int (length ds) \<le> 19 \<Longrightarrow>
     \<exists>q. buffer_ok q (i + int (length ds)) \<and>
         take (nat (i + int (length ds))) q = take (nat i) p @ map char_of ds \<and>
         input_loop p i (ds @ rest) = input_loop q (i + int (length ds)) rest"
proof (induction ds arbitrary: p i)
  case Nil
  then show ?case by auto
next
  case (Cons k ds)
  from Cons.prems have dk: "isdigit k" and i19: "i < 19" by auto
  from buffer_okD [OF Cons.prems(1)] have lo: "0 \<le> i" and inb: "nat i < length p" by simp_all
  let ?p = "p[nat i := char_of k]"
  have step: "loop_body p i k = Again (?p, i + 1)"
    by (rule loop_body_digit [OF Cons.prems(1) dk i19])
  from loop_body_again [OF Cons.prems(1) step] have ok: "buffer_ok ?p (i + 1)" .
  from Cons.prems have "\<forall>k \<in> set ds. isdigit k" and "i + 1 + int (length ds) \<le> 19" by auto
  from Cons.IH [OF ok this] obtain q where
    q: "buffer_ok q (i + 1 + int (length ds))"
       "take (nat (i + 1 + int (length ds))) q = take (nat (i + 1)) ?p @ map char_of ds"
       "input_loop ?p (i + 1) (ds @ rest) = input_loop q (i + 1 + int (length ds)) rest"
    by blast
  from lo have "nat (i + 1) = Suc (nat i)" by simp
  with take_update_snoc [OF inb, of "char_of k"]
  have tk: "take (nat (i + 1)) ?p = take (nat i) p @ [char_of k]" by simp
  have e: "i + 1 + int (length ds) = i + int (length (k # ds))" by simp
  from q tk step show ?case unfolding e by auto
qed

lemma kill_digits_enter:
  assumes len: "length pidStr0 = 20" and dig: "\<forall>k \<in> set ds. isdigit k" and fit: "length ds \<le> 19"
  shows "killProcessWindow pidStr0 (ds @ KEY_ENTER # rest) =
           (case stoi (map char_of ds) of
              Inr pid' \<Rightarrow> Done [(pid', SIGTERM)]
            | Inl e \<Rightarrow> Done [])"
proof -
  from fit have "0 + int (length ds) \<le> 19" by simp
  from input_loop_digits [OF buffer_ok_start [OF len] dig this, of "KEY_ENTER # rest"]
  obtain q where ok: "buffer_ok q (int (length ds))"
    and tk: "take (length ds) q = map char_of ds"
    and il: "input_loop pidStr0 0 (ds @ KEY_ENTER # rest) =
               input_loop q (int (length ds)) (KEY_ENTER # rest)"
    by auto
  let ?q = "q[length ds := CHR 0x00]"
  have d: "input_loop pidStr0 0 (ds @ KEY_ENTER # rest) = Done (?q, int (length ds))"
    using loop_body_enter [OF ok] by (simp add: il)
  from input_loop_done [OF buffer_ok_start [OF len] d]
  have "c_str ?q = take (length ds) ?q" and "CHR 0x00 \<in> set ?q" by simp_all
  with tk have "c_str ?q = map char_of ds" and "CHR 0x00 \<in> set ?q" by simp_all
  with d show ?thesis by (simp add: killProcessWindow_def)
qed

lemma kill_escape:
  assumes len: "length pidStr0 = 20" and "KEY_ESC \<notin> set ks" and "KEY_ENTER \<notin> set ks"
  shows "killProcessWindow pidStr0 (ks @ KEY_ESC # rest) = Done []"
proof -
  from input_loop_append [OF buffer_ok_start [OF len] assms(2,3), of "KEY_ESC # rest"]
  obtain q j where "input_loop pidStr0 0 (ks @ KEY_ESC # rest) = input_loop q j (KEY_ESC # rest)"
    by blast
  then show ?thesis by (simp add: killProcessWindow_def loop_body_esc)
qed

lemma kill_at_most_one:
  "killProcessWindow pidStr0 keys = Done sent \<Longrightarrow> sent = [] \<or> (\<exists>k. sent = [(k, SIGTERM)])"
  by (auto simp: killProcessWindow_def split: run.splits prod.splits if_splits sum.splits)

lemma kill_unparsed:
  assumes len: "length pidStr0 = 20" and d: "input_loop pidStr0 0 keys = Done (p, i)"
    and e: "stoi (c_str p) = Inl e"
  shows "killProcessWindow pidStr0 keys = Done []"
proof (cases "i = - 1")
  case True
  with d show ?thesis by (simp add: killProcessWindow_def)
next
  case False
  with input_loop_done [OF buffer_ok_start [OF len] d] have "CHR 0x00 \<in> set p" by simp
  with d e False show ?thesis by (simp add: killProcessWindow_def)
qed

lemma stoi_1234: "stoi (map char_of [49, 50, 51, 52 :: int]) = Inr 1234"
  by (simp add: char_of_def parse_defs Let_def)

lemma kill_no_fault:
  assumes len: "length pidStr0 = 20"
  shows "killProcessWindow pidStr0 keys \<noteq> Stopped f"
proof (cases "input_loop pidStr0 0 keys")
  case Waiting
  then show ?thesis by (simp add: killProcessWindow_def)
next
  case (Stopped g)
  with input_loop_no_fault [OF buffer_ok_start [OF len], of keys g] show ?thesis by simp
next
  case (Done r)
  obtain p i where r: "r = (p, i)" by (cases r)
  from input_loop_done [OF buffer_ok_start [OF len], of keys p i] Done r
  have "i = - 1 \<or> CHR 0x00 \<in> set p" by auto
  with Done r show ?thesis by (auto simp: killProcessWindow_def split: sum.splits)
qed

lemma loop_body_grow:
  assumes ok: "buffer_ok p i" and ag: "loop_body p i ch = Again (p', i')" and gr: "i < i'"
  shows "isdigit ch \<and> i' = i + 1 \<and> take (nat i') p' = take (nat i) p @ [char_of ch]"
proof -
  from buffer_okD [OF ok] have lo: "0 \<le> i" and inb: "nat i < length p" by simp_all
  from loop_body_cases [OF lo inb, of ch] ag gr
  have d: "p' = p[nat i := char_of ch]" "i' = i + 1" "isdigit ch" by auto
  from lo have "nat (i + 1) = Suc (nat i)" by simp
  with take_update_snoc [OF inb, of "char_of ch"] d show ?thesis by simp
qed

lemma loop_body_full:
  assumes "isdigit ch"
  shows "loop_body p 19 ch = Again (p, 19)"
  using isdigit_not_control [OF assms] by (simp add: loop_body_def)

lemma loop_body_backspace_empty:
  "loop_body p 0 KEY_BACKSPACE = Again (p, 0)" "loop_body p 0 KEY_DEL = Again (p, 0)"
  by (simp_all add: loop_body_def KEY_BACKSPACE_def KEY_DEL_def KEY_ESC_def KEY_ENTER_def)

text \<open>The modal returns once a confirm or cancel key arrives.\<close>

lemma kill_returns:
  assumes len: "length pidStr0 = 20" and t: "KEY_ESC \<in> set keys \<or> KEY_ENTER \<in> set keys"
  shows "\<exists>sent. killProcessWindow pidStr0 keys = Done sent"
proof -
  from t have "\<exists>k \<in> set keys. k = KEY_ESC \<or> k = KEY_ENTER" by auto
  from split_list_first_prop [OF this] obtain ks k rest where
    keys: "keys = ks @ k # rest" and k: "k = KEY_ESC \<or> k = KEY_ENTER"
    and no: "\<forall>x \<in> set ks. \<not> (x = KEY_ESC \<or> x = KEY_ENTER)" by blast
  from no have "KEY_ESC \<notin> set ks" "KEY_ENTER \<notin> set ks" by auto
  from input_loop_append [OF buffer_ok_start [OF len] this, of "k # rest"]
  obtain q j where ok: "buffer_ok q j"
    and il: "input_loop pidStr0 0 keys = input_loop q j (k # rest)" unfolding keys by blast
  from k have "\<exists>r. input_loop q j (k # rest) = Done r"
    using loop_body_esc [of q j] loop_body_enter [OF ok] by auto
  with il obtain r where d: "input_loop pidStr0 0 keys = Done r" by auto
  obtain p i where r: "r = (p, i)" by (cases r)
  from input_loop_done [OF buffer_ok_start [OF len], of keys p i] d r
  have "i = - 1 \<or> CHR 0x00 \<in> set p" by auto
  with d r show ?thesis by (auto simp: killProcessWindow_def split: sum.splits)
qed

subsection \<open>Directory names and user names\<close>





lemma ex_getProcesses_race:
  "getProcesses Map.empty ex_prev ex_fs_race 8000000 40 =
     Inr [ex_p57, ex_p42\<lparr>user := ''n/a''\<rparr>]"
proof -
  have d: "proc_dir ex_fs_race = Some [''.'', ''..'', ''57'', ''self'', ''42'', ''cpuinfo'']"
    by (simp add: ex_fs_race_def ex_fs_def)
  have s: "sampleEntry Map.empty ex_prev ex_fs_race 8000000 40 ''42'' =
             Inr (Some (ex_p42\<lparr>user := ''n/a''\<rparr>))"
    "sampleEntry Map.empty ex_prev ex_fs_race 8000000 40 ''57'' = Inr (Some ex_p57)"
    using ex_parse_stat ex_read_status ex_find_uid
    by (simp_all add: sampleEntry_def ex_stoi ex_fs_race_def ex_fs_def ex_prev_def
        getUsername_def processTimeDelta_def calc_cpuPercent_def calc_memPercent_def
        fdiv_def to_double_def ex_p42_def ex_p57_def)
  from d show ?thesis
    by (simp add: getProcesses_def s sampleEntry_not_pid [OF ex_stoi(3)]
        sampleEntry_not_pid [OF ex_stoi(4)] sampleEntry_not_pid [OF ex_stoi(5)]
        sampleEntry_not_pid [OF ex_stoi(6)])
qed

section \<open>The claims\<close>

text \<open>
  Claim C1. Every process that \<^verbatim>\<open>getProcesses\<close> samples carries
  \<open>cpuPercent = 100 * processDelta / totalCpuDelta\<close> when \<open>totalCpuDelta > 0\<close> and 0
  otherwise, where \<open>processDelta\<close> is the delta of its \<open>utime + stime\<close> against the
  previous-sample store, and \<open>memPercent = 100 * residentKb / totalSystemMemKb\<close> when
  \<open>totalSystemMemKb > 0\<close> and 0 otherwise. A process with 100000 KB resident on a system
  with 8000000 KB gets 1.25.
\<close>

theorem getProcesses_percentages:
  assumes "getProcesses uc prev fs mem cpu = Inr ps" and "p \<in> set ps"
  shows "cpuPercent p =
           (if 0 < sint cpu
            then 100 * to_double (processTimeDelta prev (pid p) (utime p) (stime p)) / to_double cpu
            else 0) \<and>
         memPercent p =
           (if 0 < sint mem then 100 * to_double (memRssKb p) / to_double mem else 0) \<and>
         (sint (memRssKb p) = 100000 \<and> sint mem = 8000000 \<longrightarrow> memPercent p = 1.25)"
proof -
  from getProcesses_mem [OF assms] obtain d
    where "sampleEntry uc prev fs mem cpu d = Inr (Some p)" by blast
  from sampleEntry_Some(2,3) [OF this] show ?thesis by (simp add: to_double_def)
qed

theorem getProcesses_percentages_witness:
  "getProcesses ex_cache ex_prev ex_fs 8000000 40 = Inr [ex_p57, ex_p42] \<and>
   ex_p42 \<in> set [ex_p57, ex_p42] \<and>
   sint (memRssKb ex_p42) = 100000 \<and> sint (8000000 :: long) = 8000000 \<and>
   memPercent ex_p42 = 1.25 \<and>
   sint (processTimeDelta ex_prev 42 30 12) = 12 \<and> cpuPercent ex_p42 = 30"
  using getProcesses_percentages [OF ex_getProcesses, of ex_p42] ex_getProcesses
  by (simp add: ex_p42_def ex_prev_def processTimeDelta_def)

text \<open>
  Claim C2. On every tick the system-wide \<open>cpuUsage\<close> is
  \<open>100 * (totalCpuDelta - idleDelta) / totalCpuDelta\<close> when \<open>totalCpuDelta > 0\<close> and 0
  otherwise, the two deltas being the differences of \<open>total\<close> and \<open>idle\<close> between the
  sample of this tick and the one stored by the tick before. For the counters lines
  \<^verbatim>\<open>cpu 100 0 50 850 0 0 0 0\<close> and then \<^verbatim>\<open>cpu 110 0 60 870 0 0 0 0\<close> the deltas are 40
  and 20 and the usage is 50.
\<close>

theorem main_tick_cpuUsage:
  assumes "main_tick s inp g ps s'"
  shows "totalDelta g =
           SysCpuTimes.total (getSystemCpuTimes (proc_stat inp)) -
           SysCpuTimes.total (prevSysCpuTimes s) \<and>
         idleDelta g = idle (getSystemCpuTimes (proc_stat inp)) - idle (prevSysCpuTimes s) \<and>
         sysCpuUsage g =
           (if 0 < sint (totalDelta g)
            then 100 * to_double (totalDelta g - idleDelta g) / to_double (totalDelta g)
            else 0) \<and>
         (prevSysCpuTimes s = getSystemCpuTimes (Some [''cpu 100 0 50 850 0 0 0 0'']) \<and>
          proc_stat inp = Some (''cpu 110 0 60 870 0 0 0 0'' # rest) \<longrightarrow>
            sint (totalDelta g) = 40 \<and> sint (idleDelta g) = 20 \<and> sysCpuUsage g = 50)"
proof -
  from assms have g: "gather s inp = Inr g" by (simp add: main_tick_def)
  note f = gather_Inr [OF g]
  have "sint (totalDelta g) = 40 \<and> sint (idleDelta g) = 20 \<and> sysCpuUsage g = 50"
    if "prevSysCpuTimes s = getSystemCpuTimes (Some [''cpu 100 0 50 850 0 0 0 0''])"
      and "proc_stat inp = Some (''cpu 110 0 60 870 0 0 0 0'' # rest)"
  proof -
    from that f(1,2) have "totalDelta g = 40" "idleDelta g = 20"
      by (simp_all add: ex_getSystemCpuTimes ex_cpu_times_def)
    with f(6) show ?thesis by (simp add: to_double_def)
  qed
  with f show ?thesis by blast
qed

theorem main_tick_cpuUsage_witness:
  "main_tick ex_state ex_input ex_gathered [ex_p42, ex_p57] ex_state' \<and>
   prevSysCpuTimes ex_state = getSystemCpuTimes (Some [''cpu 100 0 50 850 0 0 0 0'']) \<and>
   proc_stat ex_input = Some [''cpu 110 0 60 870 0 0 0 0'', ''cpu0 110 0 60 870 0 0 0 0''] \<and>
   sint (totalDelta ex_gathered) = 40 \<and> sint (idleDelta ex_gathered) = 20 \<and>
   sysCpuUsage ex_gathered = 50"
proof -
  have "prevSysCpuTimes ex_state = getSystemCpuTimes (Some [''cpu 100 0 50 850 0 0 0 0''])"
    and "proc_stat ex_input = Some [''cpu 110 0 60 870 0 0 0 0'', ''cpu0 110 0 60 870 0 0 0 0'']"
    by (simp_all add: ex_state_def ex_input_def)
  with main_tick_cpuUsage [OF ex_main_tick, of "[''cpu0 110 0 60 870 0 0 0 0'']"] ex_main_tick
  show ?thesis by blast
qed

text \<open>
  Claim C3, as amended. In every tick no division by zero is performed in deriving
  \<open>cpuUsage\<close>, \<open>cpuPercent\<close> and \<open>memPercent\<close>, and each of the three is exactly 0 when
  its denominator is not positive. When the denominator is positive each has the sign of
  its numerator: \<open>cpuUsage\<close> is at least 0 exactly when \<open>totalCpuDelta - idleDelta\<close> is,
  \<open>cpuPercent\<close> exactly when the process delta is, \<open>memPercent\<close> exactly when the
  resident size is.
\<close>

theorem percentages_sign:
  "gather s inp \<noteq> Inl DivisionByZero \<and>
   (gather s inp = Inr g \<longrightarrow>
      (sint (totalDelta g) \<le> 0 \<longrightarrow>
         sysCpuUsage g = 0 \<and> (\<forall>p \<in> set (processes g). cpuPercent p = 0)) \<and>
      (sint (memTotal g) \<le> 0 \<longrightarrow> (\<forall>p \<in> set (processes g). memPercent p = 0)) \<and>
      (0 < sint (totalDelta g) \<longrightarrow>
         (0 \<le> sysCpuUsage g \<longleftrightarrow> 0 \<le> sint (totalDelta g - idleDelta g)) \<and>
         (\<forall>p \<in> set (processes g).
            0 \<le> cpuPercent p \<longleftrightarrow>
            0 \<le> sint (processTimeDelta (prevProcessTimes s) (pid p) (utime p) (stime p)))) \<and>
      (0 < sint (memTotal g) \<longrightarrow>
         (\<forall>p \<in> set (processes g). 0 \<le> memPercent p \<longleftrightarrow> 0 \<le> sint (memRssKb p))))"
proof -
  have sgn: "0 \<le> 100 * to_double a / to_double b \<longleftrightarrow> 0 \<le> sint a" if "0 < sint b" for a b
  proof -
    from that have "0 < real_of_int (sint b)" by (simp only: of_int_0_less_iff)
    then have "0 \<le> 100 * real_of_int (sint a) / real_of_int (sint b) \<longleftrightarrow> 0 \<le> real_of_int (sint a)"
      by (simp only: zero_le_divide_iff zero_le_mult_iff) auto
    also have "\<dots> \<longleftrightarrow> 0 \<le> sint a" by (simp only: of_int_0_le_iff)
    finally show ?thesis by (simp only: to_double_def)
  qed
  have main: ?thesis if g: "gather s inp = Inr g"
  proof -
    note f = gather_Inr [OF g]
    have pc: "cpuPercent p =
                (if 0 < sint (totalDelta g)
                 then 100 * to_double (processTimeDelta (prevProcessTimes s) (pid p) (utime p) (stime p))
                        / to_double (totalDelta g)
                 else 0) \<and>
              memPercent p =
                (if 0 < sint (memTotal g) then 100 * to_double (memRssKb p) / to_double (memTotal g)
                 else 0)"
      if "p \<in> set (processes g)" for p
    proof -
      from getProcesses_mem [OF f(7) that] obtain d where
        "sampleEntry (usernameCache s) (prevProcessTimes s) (proc inp) (memTotal g) (totalDelta g) d
           = Inr (Some p)" by blast
      from sampleEntry_Some(2,3) [OF this] show ?thesis by simp
    qed
    have z1: "sysCpuUsage g = 0 \<and> (\<forall>p \<in> set (processes g). cpuPercent p = 0)"
      if "sint (totalDelta g) \<le> 0"
      using that f(6) pc by auto
    have z2: "\<forall>p \<in> set (processes g). memPercent p = 0" if "sint (memTotal g) \<le> 0"
      using that pc by auto
    have p1: "(0 \<le> sysCpuUsage g \<longleftrightarrow> 0 \<le> sint (totalDelta g - idleDelta g)) \<and>
         (\<forall>p \<in> set (processes g).
            0 \<le> cpuPercent p \<longleftrightarrow>
            0 \<le> sint (processTimeDelta (prevProcessTimes s) (pid p) (utime p) (stime p)))"
      if "0 < sint (totalDelta g)"
      using that f(6) pc sgn [OF that] by auto
    have p2: "\<forall>p \<in> set (processes g). 0 \<le> memPercent p \<longleftrightarrow> 0 \<le> sint (memRssKb p)"
      if "0 < sint (memTotal g)"
      using that pc sgn [OF that] by auto
    from z1 z2 p1 p2 gather_no_div [of s inp] show ?thesis by blast
  qed
  show ?thesis
  proof (cases "gather s inp = Inr g")
    case True
    then show ?thesis by (rule main)
  next
    case False
    with gather_no_div [of s inp] show ?thesis by simp
  qed
qed

theorem percentages_sign_witness:
  "gather ex_state ex_input = Inr ex_gathered \<and>
   0 < sint (totalDelta ex_gathered) \<and> 0 < sint (memTotal ex_gathered) \<and>
   0 \<le> sysCpuUsage ex_gathered \<and>
   (\<exists>p \<in> set (processes ex_gathered). 0 \<le> cpuPercent p \<and> 0 \<le> memPercent p) \<and>
   gather ex_state ex_input_idle = Inr ex_gathered_idle \<and>
   sint (totalDelta ex_gathered_idle) \<le> 0 \<and> sint (memTotal ex_gathered_idle) \<le> 0 \<and>
   sysCpuUsage ex_gathered_idle = 0 \<and>
   (\<exists>p \<in> set (processes ex_gathered_idle). cpuPercent p = 0 \<and> memPercent p = 0)"
proof -
  have a: "0 < sint (totalDelta ex_gathered)" "0 < sint (memTotal ex_gathered)"
    "ex_p42 \<in> set (processes ex_gathered)"
    "0 \<le> sint (totalDelta ex_gathered - idleDelta ex_gathered)"
    "0 \<le> sint (memRssKb ex_p42)"
    "0 \<le> sint (processTimeDelta (prevProcessTimes ex_state) (pid ex_p42) (utime ex_p42) (stime ex_p42))"
    by (simp_all add: ex_gathered_def ex_p42_def ex_state_def ex_prev_def processTimeDelta_def)
  have b: "sint (totalDelta ex_gathered_idle) \<le> 0" "sint (memTotal ex_gathered_idle) \<le> 0"
    "ex_p42\<lparr>cpuPercent := 0, memPercent := 0\<rparr> \<in> set (processes ex_gathered_idle)"
    by (simp_all add: ex_gathered_idle_def)
  from percentages_sign [of ex_state ex_input ex_gathered] ex_gather a
  have 1: "0 \<le> sysCpuUsage ex_gathered \<and> 0 \<le> cpuPercent ex_p42 \<and> 0 \<le> memPercent ex_p42"
    by blast
  from percentages_sign [of ex_state ex_input_idle ex_gathered_idle] ex_gather_idle b
  have 2: "sysCpuUsage ex_gathered_idle = 0 \<and>
           cpuPercent (ex_p42\<lparr>cpuPercent := 0, memPercent := 0\<rparr>) = 0 \<and>
           memPercent (ex_p42\<lparr>cpuPercent := 0, memPercent := 0\<rparr>) = 0"
    by blast
  from 1 2 a b ex_gather ex_gather_idle show ?thesis by blast
qed

text \<open>
  Claim C3 as stated fails for a process whose counters are below the ones stored under
  its pid: with the store holding \<open>(100, 50)\<close> for pid 42 and the process now at
  \<open>(30, 12)\<close>, the tick has \<open>totalCpuDelta = 40 > 0\<close> and gives the process
  \<open>cpuPercent = - 270\<close>.
\<close>

theorem percentages_sign_counterexample:
  "gather ex_state_reuse ex_input = Inr ex_gathered_reuse \<and>
   sint (totalDelta ex_gathered_reuse) = 40 \<and>
   processes ex_gathered_reuse = [ex_p57, ex_p42_reuse] \<and>
   cpuPercent ex_p42_reuse = - 270"
  by (simp add: ex_gather_reuse ex_gathered_reuse_def ex_gathered_def ex_p42_reuse_def)

text \<open>
  Claim C4, as amended. For every content of the counters file, the \<open>total\<close> of the sample
  is the 64-bit sum of its eight fields, and it is their exact sum whenever that sum lies
  in the range of \<^verbatim>\<open>long long\<close>. For a well-formed line, the label \<^verbatim>\<open>cpu\<close> and eight
  numerals that each fit \<^verbatim>\<open>long long\<close>, separated by white space and followed by nothing
  or by white space and more, the eight fields are the numbers written, and \<open>total\<close> is
  their exact sum whenever that sum is at most \<^verbatim>\<open>LLONG_MAX\<close>.
\<close>

theorem getSystemCpuTimes_total:
  "SysCpuTimes.total (getSystemCpuTimes f) =
     SysCpuTimes.user (getSystemCpuTimes f) + nice (getSystemCpuTimes f) +
     system (getSystemCpuTimes f) + idle (getSystemCpuTimes f) + iowait (getSystemCpuTimes f) +
     irq (getSystemCpuTimes f) + softirq (getSystemCpuTimes f) + steal (getSystemCpuTimes f) \<and>
   (LLONG_MIN \<le> field_sum (getSystemCpuTimes f) \<and> field_sum (getSystemCpuTimes f) \<le> LLONG_MAX
      \<longrightarrow> sint (SysCpuTimes.total (getSystemCpuTimes f)) = field_sum (getSystemCpuTimes f)) \<and>
   (counter_field w1 d1 \<and> counter_field w2 d2 \<and> counter_field w3 d3 \<and> counter_field w4 d4 \<and>
    counter_field w5 d5 \<and> counter_field w6 d6 \<and> counter_field w7 d7 \<and> counter_field w8 d8 \<and>
    (r = [] \<or> isspace_c (hd r)) \<and>
    f = Some ((''cpu'' @ w1 @ d1 @ w2 @ d2 @ w3 @ d3 @ w4 @ d4 @ w5 @ d5 @ w6 @ d6 @
               w7 @ d7 @ w8 @ d8 @ r) # ls)
      \<longrightarrow> sint (SysCpuTimes.user (getSystemCpuTimes f)) = int (digits_val d1) \<and>
          sint (nice (getSystemCpuTimes f)) = int (digits_val d2) \<and>
          sint (system (getSystemCpuTimes f)) = int (digits_val d3) \<and>
          sint (idle (getSystemCpuTimes f)) = int (digits_val d4) \<and>
          sint (iowait (getSystemCpuTimes f)) = int (digits_val d5) \<and>
          sint (irq (getSystemCpuTimes f)) = int (digits_val d6) \<and>
          sint (softirq (getSystemCpuTimes f)) = int (digits_val d7) \<and>
          sint (steal (getSystemCpuTimes f)) = int (digits_val d8) \<and>
          (int (digits_val d1) + int (digits_val d2) + int (digits_val d3) + int (digits_val d4) +
           int (digits_val d5) + int (digits_val d6) + int (digits_val d7) + int (digits_val d8)
             \<le> LLONG_MAX \<longrightarrow>
           sint (SysCpuTimes.total (getSystemCpuTimes f)) =
             int (digits_val d1) + int (digits_val d2) + int (digits_val d3) +
             int (digits_val d4) + int (digits_val d5) + int (digits_val d6) +
             int (digits_val d7) + int (digits_val d8)))"
  (is "?A \<and> ?B \<and> (?wf \<longrightarrow> ?C)")
proof -
  let ?t = "getSystemCpuTimes f"
  have w: "SysCpuTimes.total ?t = word_of_int (field_sum ?t)"
    unfolding field_sum_def by (subst total_is_word_sum) (rule word_sum_of_int)
  have A: ?A by (rule total_is_word_sum)
  have B: ?B using w by (simp add: sint_word_of_int_in_range)
  have C: ?C if wf: ?wf
  proof -
    from wf have cf: "counter_field w1 d1" "counter_field w2 d2" "counter_field w3 d3"
      "counter_field w4 d4" "counter_field w5 d5" "counter_field w6 d6"
      "counter_field w7 d7" "counter_field w8 d8"
      and r: "r = [] \<or> isspace_c (hd r)"
      and f: "f = Some ((''cpu'' @ w1 @ d1 @ w2 @ d2 @ w3 @ d3 @ w4 @ d4 @ w5 @ d5 @ w6 @ d6 @
               w7 @ d7 @ w8 @ d8 @ r) # ls)"
      by blast+
    from r have r': "r = [] \<or> \<not> isdigit_c (hd r)" by (auto dest: isdigit_c_not_space)
    note t = getSystemCpuTimes_fields [OF cf r', of ls, folded f]
    have v: "sint (SysCpuTimes.user ?t) = int (digits_val d1)"
      "sint (nice ?t) = int (digits_val d2)"
      "sint (system ?t) = int (digits_val d3)"
      "sint (idle ?t) = int (digits_val d4)"
      "sint (iowait ?t) = int (digits_val d5)"
      "sint (irq ?t) = int (digits_val d6)"
      "sint (softirq ?t) = int (digits_val d7)"
      "sint (steal ?t) = int (digits_val d8)"
      by (simp_all add: t sint_counter_val cf [THEN counter_fieldD])
    then have fs: "field_sum ?t =
       int (digits_val d1) + int (digits_val d2) + int (digits_val d3) + int (digits_val d4) +
       int (digits_val d5) + int (digits_val d6) + int (digits_val d7) + int (digits_val d8)"
      by (simp only: field_sum_def)
    have "LLONG_MIN \<le> field_sum ?t" unfolding fs by (simp add: LLONG_MIN_def)
    with B fs v show ?thesis by simp
  qed
  from A B C show ?thesis by blast
qed

theorem getSystemCpuTimes_total_witness:
  "counter_field ''  '' ''110'' \<and> counter_field '' '' ''0'' \<and> counter_field '' '' ''60'' \<and>
   counter_field '' '' ''870'' \<and> isspace_c (hd '' 0 0'') \<and>
   LLONG_MIN \<le> field_sum (getSystemCpuTimes (Some [''cpu  110 0 60 870 0 0 0 0 0 0''])) \<and>
   field_sum (getSystemCpuTimes (Some [''cpu  110 0 60 870 0 0 0 0 0 0''])) \<le> LLONG_MAX \<and>
   field_sum (getSystemCpuTimes (Some [''cpu  110 0 60 870 0 0 0 0 0 0''])) = 1040 \<and>
   sint (idle (getSystemCpuTimes (Some [''cpu  110 0 60 870 0 0 0 0 0 0'']))) = 870 \<and>
   sint (SysCpuTimes.total (getSystemCpuTimes (Some [''cpu  110 0 60 870 0 0 0 0 0 0'']))) = 1040"
proof -
  let ?t = "getSystemCpuTimes (Some [''cpu  110 0 60 870 0 0 0 0 0 0''])"
  have l: "Some [''cpu  110 0 60 870 0 0 0 0 0 0''] =
     Some ((''cpu'' @ ''  '' @ ''110'' @ '' '' @ ''0'' @ '' '' @ ''60'' @ '' '' @ ''870'' @
            '' '' @ ''0'' @ '' '' @ ''0'' @ '' '' @ ''0'' @ '' '' @ ''0'' @ '' 0 0'') # [])"
    by simp
  have sp: "isspace_c (hd '' 0 0'')" by (simp add: isspace_c_def)
  have le: "int (digits_val ''110'') + int (digits_val ''0'') + int (digits_val ''60'') +
     int (digits_val ''870'') + int (digits_val ''0'') + int (digits_val ''0'') +
     int (digits_val ''0'') + int (digits_val ''0'') \<le> LLONG_MAX"
    by (simp add: ex_digits_val LLONG_MAX_def)
  from getSystemCpuTimes_total [of "Some [''cpu  110 0 60 870 0 0 0 0 0 0'']"
      "''  ''" "''110''" "'' ''" "''0''" "'' ''" "''60''" "'' ''" "''870''" "'' ''" "''0''"
      "'' ''" "''0''" "'' ''" "''0''" "'' ''" "''0''" "'' 0 0''" "[]"]
    ex_counter_fields sp l le
  have c: "sint (idle ?t) = int (digits_val ''870'') \<and>
     sint (SysCpuTimes.total ?t) =
       int (digits_val ''110'') + int (digits_val ''0'') + int (digits_val ''60'') +
       int (digits_val ''870'') + int (digits_val ''0'') + int (digits_val ''0'') +
       int (digits_val ''0'') + int (digits_val ''0'')"
    and b: "LLONG_MIN \<le> field_sum ?t \<and> field_sum ?t \<le> LLONG_MAX
      \<longrightarrow> sint (SysCpuTimes.total ?t) = field_sum ?t"
    by blast+
  from c have v: "sint (idle ?t) = 870" "sint (SysCpuTimes.total ?t) = 1040"
    by (simp_all add: ex_digits_val)
  have s: "field_sum ?t = 1040"
    by (simp add: getSystemCpuTimes_def field_sum_def parse_defs Let_def)
  then have rg: "LLONG_MIN \<le> field_sum ?t" "field_sum ?t \<le> LLONG_MAX"
    by (simp_all add: LLONG_MIN_def LLONG_MAX_def)
  from ex_counter_fields sp rg s v show ?thesis by (intro conjI)
qed

text \<open>
  Claim C4 as stated fails where the exact sum leaves the range of \<^verbatim>\<open>long long\<close>: on the
  line \<^verbatim>\<open>cpu 9223372036854775807 1 0 0 0 0 0 0\<close> the eight fields parse as written, their
  sum is \<open>2^63\<close>, and \<open>total\<close> is \<open>- 2^63\<close>.
\<close>

theorem getSystemCpuTimes_total_counterexample:
  "sint (SysCpuTimes.user (getSystemCpuTimes (Some [ex_overflow_line]))) = 9223372036854775807 \<and>
   sint (nice (getSystemCpuTimes (Some [ex_overflow_line]))) = 1 \<and>
   field_sum (getSystemCpuTimes (Some [ex_overflow_line])) = 9223372036854775808 \<and>
   sint (SysCpuTimes.total (getSystemCpuTimes (Some [ex_overflow_line]))) = - 9223372036854775808 \<and>
   sint (SysCpuTimes.total (getSystemCpuTimes (Some [ex_overflow_line]))) \<noteq>
     field_sum (getSystemCpuTimes (Some [ex_overflow_line]))"
  by (simp add: ex_overflow_line_def getSystemCpuTimes_def field_sum_def parse_defs Let_def)

text \<open>
  Claim C5. In every tick a sampled pid that the previous-sample store does not hold has
  its delta taken against 0, so its \<open>cpuPercent\<close> is computed from \<open>utime + stime\<close>
  alone. After the tick the store holds exactly the pids sampled in this tick, every entry
  is the \<open>(utime, stime)\<close> of a sample of this tick with that pid, and when the pids of the
  tick are distinct every sample is stored under its pid; the stored CPU sample is the one
  of this tick.
\<close>

theorem main_tick_previous_store:
  assumes "main_tick s inp g ps s'"
  shows "(\<forall>p \<in> set (processes g). prevProcessTimes s (pid p) = None \<longrightarrow>
            processTimeDelta (prevProcessTimes s) (pid p) (utime p) (stime p)
              = utime p + stime p - 0 \<and>
            cpuPercent p =
              (if 0 < sint (totalDelta g)
               then 100 * to_double (utime p + stime p) / to_double (totalDelta g) else 0)) \<and>
         dom (prevProcessTimes s') = pid ` set (processes g) \<and>
         (\<forall>k v. prevProcessTimes s' k = Some v \<longrightarrow>
            (\<exists>p \<in> set (processes g). pid p = k \<and> v = (utime p, stime p))) \<and>
         (distinct (map pid (processes g)) \<longrightarrow>
            (\<forall>p \<in> set (processes g). prevProcessTimes s' (pid p) = Some (utime p, stime p))) \<and>
         prevSysCpuTimes s' = currentSysCpuTimes g"
proof -
  from assms have g: "gather s inp = Inr g"
    and srt: "std_sort (comparator (currentSortMode s)) (processes g) ps"
    and s': "s' = update_previous s g ps"
    by (simp_all add: main_tick_def)
  have set_ps: "set ps = set (processes g)" by (rule std_sort_set [OF srt])
  have tbl: "prevProcessTimes s' = record_times ps Map.empty"
    and sys: "prevSysCpuTimes s' = currentSysCpuTimes g"
    by (simp_all add: s' update_previous_def)
  have new: "processTimeDelta (prevProcessTimes s) (pid p) (utime p) (stime p)
               = utime p + stime p - 0 \<and>
             cpuPercent p =
               (if 0 < sint (totalDelta g)
                then 100 * to_double (utime p + stime p) / to_double (totalDelta g) else 0)"
    if "p \<in> set (processes g)" and "prevProcessTimes s (pid p) = None" for p
  proof -
    from getProcesses_mem [OF gather_Inr(7) [OF g] that(1)] obtain d where
      "sampleEntry (usernameCache s) (prevProcessTimes s) (proc inp) (memTotal g) (totalDelta g) d
         = Inr (Some p)" by blast
    from sampleEntry_Some(2) [OF this] that(2) show ?thesis
      by (simp add: processTimeDelta_new)
  qed
  have dom: "dom (prevProcessTimes s') = pid ` set (processes g)"
    by (simp add: tbl dom_record_times set_ps)
  have only: "\<exists>p \<in> set (processes g). pid p = k \<and> v = (utime p, stime p)"
    if "prevProcessTimes s' k = Some v" for k v
    using record_times_Some [of ps Map.empty k v] that by (simp add: tbl set_ps)
  have all: "prevProcessTimes s' (pid p) = Some (utime p, stime p)"
    if "distinct (map pid (processes g))" and "p \<in> set (processes g)" for p
    using record_times_distinct [of ps p Map.empty] that std_sort_distinct_pid [OF srt]
    by (simp add: tbl set_ps)
  from new dom only all sys show ?thesis by blast
qed

theorem main_tick_previous_store_witness:
  "main_tick ex_state ex_input ex_gathered [ex_p42, ex_p57] ex_state' \<and>
   ex_p57 \<in> set (processes ex_gathered) \<and> ex_p42 \<in> set (processes ex_gathered) \<and>
   prevProcessTimes ex_state (pid ex_p57) = None \<and>
   prevProcessTimes ex_state 99 = Some (5, 5) \<and>
   distinct (map pid (processes ex_gathered)) \<and>
   cpuPercent ex_p57 = 10 \<and>
   prevProcessTimes ex_state' = [42 \<mapsto> (30, 12), 57 \<mapsto> (3, 1)] \<and>
   prevProcessTimes ex_state' 99 = None \<and>
   dom (prevProcessTimes ex_state') = {42, 57}"
proof -
  have a: "ex_p57 \<in> set (processes ex_gathered)" "ex_p42 \<in> set (processes ex_gathered)"
    "prevProcessTimes ex_state (pid ex_p57) = None" "prevProcessTimes ex_state 99 = Some (5, 5)"
    "distinct (map pid (processes ex_gathered))" "cpuPercent ex_p57 = 10"
    "prevProcessTimes ex_state' = [42 \<mapsto> (30, 12), 57 \<mapsto> (3, 1)]"
    "prevProcessTimes ex_state' 99 = None"
    "pid ` set (processes ex_gathered) = {42, 57}"
    by (auto simp: ex_gathered_def ex_state_def ex_state'_def ex_prev_def ex_p42_def ex_p57_def)
  with main_tick_previous_store [OF ex_main_tick] ex_main_tick show ?thesis by simp
qed

text \<open>
  Claim C6. For a list of processes in which no two different samples share a pid, so for
  every list that \<^verbatim>\<open>getProcesses\<close> returns from a directory whose names denote distinct
  pids, sorting by pid a second time leaves the order of the first sort; sorting a
  non-empty list by CPU puts an element with the largest \<open>cpuPercent\<close> first; and in every
  mode the sorted vector holds the same samples as the input, each as often, so also the
  same \<open>cpuPercent\<close> and \<open>memPercent\<close> values. A sorted vector exists in every mode.
\<close>

theorem sort_modes:
  "(inj_on pid (set xs) \<and> std_sort (comparator BY_PID) xs ys \<and>
      std_sort (comparator BY_PID) ys zs \<longrightarrow> zs = ys) \<and>
   (getProcesses uc prev fs mem cpu = Inr xs \<and> proc_dir fs = Some es \<and>
      distinct (entry_pids es) \<and> std_sort (comparator BY_PID) xs ys \<and>
      std_sort (comparator BY_PID) ys zs \<longrightarrow> zs = ys) \<and>
   (xs \<noteq> [] \<and> std_sort (comparator BY_CPU) xs ys \<longrightarrow>
      ys \<noteq> [] \<and> hd ys \<in> set xs \<and> (\<forall>p \<in> set xs. cpuPercent p \<le> cpuPercent (hd ys))) \<and>
   (std_sort (comparator mode) xs ys \<longrightarrow>
      mset ys = mset xs \<and>
      mset (map cpuPercent ys) = mset (map cpuPercent xs) \<and>
      mset (map memPercent ys) = mset (map memPercent xs)) \<and>
   (\<exists>ws. std_sort (comparator mode) xs ws)"
proof -
  have 1: "zs = ys"
    if "inj_on pid (set xs)" "std_sort (comparator BY_PID) xs ys"
      "std_sort (comparator BY_PID) ys zs"
    using that std_sort_pid_idem [of xs ys zs] by (simp add: comparator_def)
  have i1: "zs = ys"
    if "getProcesses uc prev fs mem cpu = Inr xs" "proc_dir fs = Some es"
      "distinct (entry_pids es)" "std_sort (comparator BY_PID) xs ys"
      "std_sort (comparator BY_PID) ys zs"
  proof -
    from getProcesses_distinct_pids [OF that(1-3)] have "inj_on pid (set xs)"
      by (simp add: distinct_map)
    from 1 [OF this that(4,5)] show ?thesis .
  qed
  have 2: "ys \<noteq> [] \<and> hd ys \<in> set xs \<and> (\<forall>p \<in> set xs. cpuPercent p \<le> cpuPercent (hd ys))"
    if "xs \<noteq> []" "std_sort (comparator BY_CPU) xs ys"
    using that std_sort_cpu_front [of xs ys] by (simp add: comparator_def)
  have 3: "mset ys = mset xs \<and>
      mset (map cpuPercent ys) = mset (map cpuPercent xs) \<and>
      mset (map memPercent ys) = mset (map memPercent xs)"
    if "std_sort (comparator mode) xs ys"
  proof -
    from that have "mset ys = mset xs" by (simp add: std_sort_def)
    then show ?thesis by (metis mset_map)
  qed
  from 1 i1 2 3 std_sort_exists [of mode xs] show ?thesis by blast
qed

theorem sort_modes_witness:
  "inj_on pid (set [ex_p57, ex_p42]) \<and>
   getProcesses ex_cache ex_prev ex_fs 8000000 40 = Inr [ex_p57, ex_p42] \<and>
   proc_dir ex_fs = Some [''.'', ''..'', ''57'', ''self'', ''42'', ''cpuinfo''] \<and>
   distinct (entry_pids [''.'', ''..'', ''57'', ''self'', ''42'', ''cpuinfo'']) \<and>
   std_sort (comparator BY_PID) [ex_p57, ex_p42] [ex_p42, ex_p57] \<and>
   std_sort (comparator BY_PID) [ex_p42, ex_p57] [ex_p42, ex_p57] \<and>
   [ex_p57, ex_p42] \<noteq> [] \<and>
   std_sort (comparator BY_CPU) [ex_p57, ex_p42] [ex_p42, ex_p57] \<and>
   hd [ex_p42, ex_p57] = ex_p42 \<and> cpuPercent ex_p57 \<le> cpuPercent ex_p42 \<and>
   mset [ex_p42, ex_p57] = mset [ex_p57, ex_p42]"
proof -
  have a: "inj_on pid (set [ex_p57, ex_p42])"
    "std_sort (comparator BY_PID) [ex_p57, ex_p42] [ex_p42, ex_p57]"
    "std_sort (comparator BY_PID) [ex_p42, ex_p57] [ex_p42, ex_p57]"
    "std_sort (comparator BY_CPU) [ex_p57, ex_p42] [ex_p42, ex_p57]"
    by (simp_all add: std_sort_def comparator_def compareByPid_def compareByCpu_def
        ex_p42_def ex_p57_def)
  have b: "proc_dir ex_fs = Some [''.'', ''..'', ''57'', ''self'', ''42'', ''cpuinfo'']"
    "distinct (entry_pids [''.'', ''..'', ''57'', ''self'', ''42'', ''cpuinfo''])"
    by (simp_all add: ex_fs_def ex_entry_pids)
  from sort_modes [of "[ex_p57, ex_p42]" "[ex_p42, ex_p57]" "[ex_p42, ex_p57]"
      ex_cache ex_prev ex_fs 8000000 40
      "[''.'', ''..'', ''57'', ''self'', ''42'', ''cpuinfo'']" BY_CPU] a
  have c: "hd [ex_p42, ex_p57] \<in> set [ex_p57, ex_p42] \<and>
           (\<forall>p \<in> set [ex_p57, ex_p42]. cpuPercent p \<le> cpuPercent (hd [ex_p42, ex_p57])) \<and>
           mset [ex_p42, ex_p57] = mset [ex_p57, ex_p42]"
    by blast
  then have d: "cpuPercent ex_p57 \<le> cpuPercent ex_p42" "mset [ex_p42, ex_p57] = mset [ex_p57, ex_p42]"
    by simp_all
  have e: "[ex_p57, ex_p42] \<noteq> []" "hd [ex_p42, ex_p57] = ex_p42" by simp_all
  from a b d e ex_getProcesses show ?thesis by (intro conjI)
qed

text \<open>
  Claim C7. Whatever the array holds at first: the keys \<^verbatim>\<open>1 2 3 4\<close> and Enter make the modal
  send exactly one signal, \<^verbatim>\<open>SIGTERM\<close> to pid 1234; digits followed by Esc send nothing;
  Enter on an empty buffer sends nothing; and whenever the confirmed buffer does not parse
  as a number nothing is sent and the modal returns. No run sends more than one signal or
  any signal but \<^verbatim>\<open>SIGTERM\<close>, and every run in which a confirm or cancel key arrives
  returns.
\<close>

theorem kill_modal_requests:
  assumes "length pidStr0 = 20"
  shows "killProcessWindow pidStr0 ([49, 50, 51, 52, KEY_ENTER] @ rest) = Done [(1234, SIGTERM)] \<and>
         ((\<forall>k \<in> set ds. isdigit k) \<longrightarrow>
            killProcessWindow pidStr0 (ds @ KEY_ESC # rest) = Done []) \<and>
         killProcessWindow pidStr0 (KEY_ENTER # rest) = Done [] \<and>
         (\<forall>p i e. input_loop pidStr0 0 keys = Done (p, i) \<and> stoi (c_str p) = Inl e \<longrightarrow>
            killProcessWindow pidStr0 keys = Done []) \<and>
         (\<forall>sent. killProcessWindow pidStr0 keys = Done sent \<longrightarrow>
            sent = [] \<or> (\<exists>k. sent = [(k, SIGTERM)])) \<and>
         (KEY_ESC \<in> set keys \<or> KEY_ENTER \<in> set keys \<longrightarrow>
            (\<exists>sent. killProcessWindow pidStr0 keys = Done sent))"
proof -
  have "\<forall>k \<in> set [49, 50, 51, 52 :: int]. isdigit k" by (simp add: isdigit_def)
  from kill_digits_enter [OF assms this, of rest]
  have 1: "killProcessWindow pidStr0 ([49, 50, 51, 52, KEY_ENTER] @ rest) = Done [(1234, SIGTERM)]"
    using stoi_1234 by simp
  have 2: "killProcessWindow pidStr0 (ds @ KEY_ESC # rest) = Done []"
    if "\<forall>k \<in> set ds. isdigit k"
  proof -
    from that isdigit_not_control have "KEY_ESC \<notin> set ds" "KEY_ENTER \<notin> set ds" by blast+
    from kill_escape [OF assms this] show ?thesis .
  qed
  from kill_digits_enter [OF assms, of "[]" rest]
  have 3: "killProcessWindow pidStr0 (KEY_ENTER # rest) = Done []"
    by (simp add: stoi_empty)
  have 4: "KEY_ESC \<in> set keys \<or> KEY_ENTER \<in> set keys \<longrightarrow>
            (\<exists>sent. killProcessWindow pidStr0 keys = Done sent)"
    using kill_returns [OF assms, of keys] by blast
  from 1 2 3 4 kill_unparsed [OF assms] kill_at_most_one [of pidStr0 keys] show ?thesis by blast
qed

theorem kill_modal_requests_witness:
  "length ex_pidStr0 = 20 \<and>
   killProcessWindow ex_pidStr0 [49, 50, 51, 52, 10] = Done [(1234, 15)] \<and>
   isdigit 49 \<and> isdigit 50 \<and>
   killProcessWindow ex_pidStr0 [49, 50, 27] = Done [] \<and>
   killProcessWindow ex_pidStr0 [10] = Done [] \<and>
   input_loop ex_pidStr0 0 [10] = Done (CHR 0x00 # ''xxxxxxxxxxxxxxxxxxx'', 0) \<and>
   stoi (c_str (CHR 0x00 # ''xxxxxxxxxxxxxxxxxxx'')) = Inl InvalidArgument"
proof -
  have len: "length ex_pidStr0 = 20" by (simp add: ex_pidStr0_def)
  have d: "\<forall>k \<in> set [49, 50 :: int]. isdigit k" by (simp add: isdigit_def)
  have r: "input_loop ex_pidStr0 0 [10] = Done (CHR 0x00 # ''xxxxxxxxxxxxxxxxxxx'', 0)"
    "stoi (c_str (CHR 0x00 # ''xxxxxxxxxxxxxxxxxxx'')) = Inl InvalidArgument"
    by code_simp+
  from kill_modal_requests [OF len, of "[]" "[49, 50]" "[10]"] d len r
  show ?thesis by (simp add: KEY_ENTER_def KEY_ESC_def SIGTERM_def)
qed




text \<open>
  Claim C9, as amended. For every sampled process: when its status file can be opened at
  the time of the lookup and the uid found in it (0 when it has no \<^verbatim>\<open>Uid:\<close> line) is not
  in the cache, the user is \<^verbatim>\<open>unknown\<close>; when the uid is in the cache, the user is the
  cached name; and when the file can no longer be opened, the user is \<^verbatim>\<open>n/a\<close>.
\<close>

theorem getProcesses_user:
  assumes "getProcesses uc prev fs mem cpu = Inr ps" and "p \<in> set ps"
  shows "(status_file_later fs (pid p) = None \<longrightarrow> user p = ''n/a'') \<and>
         (\<forall>lines. status_file_later fs (pid p) = Some lines \<longrightarrow>
            (uc (find_uid lines 0) = None \<longrightarrow> user p = ''unknown'') \<and>
            (\<forall>nm. uc (find_uid lines 0) = Some nm \<longrightarrow> user p = nm))"
proof -
  from getProcesses_mem [OF assms] obtain d where
    "sampleEntry uc prev fs mem cpu d = Inr (Some p)" by blast
  from sampleEntry_Some(4) [OF this]
  have "user p = getUsername uc (status_file_later fs) (pid p)" .
  then show ?thesis by (simp add: getUsername_def)
qed

theorem getProcesses_user_witness:
  "getProcesses ex_cache ex_prev ex_fs 8000000 40 = Inr [ex_p57, ex_p42] \<and>
   ex_p57 \<in> set [ex_p57, ex_p42] \<and>
   status_file_later ex_fs (pid ex_p57) = Some ex_status57 \<and>
   ex_cache (find_uid ex_status57 0) = None \<and> user ex_p57 = ''unknown'' \<and>
   getProcesses Map.empty ex_prev ex_fs_race 8000000 40 =
     Inr [ex_p57, ex_p42\<lparr>user := ''n/a''\<rparr>] \<and>
   status_file_later ex_fs_race (pid (ex_p42\<lparr>user := ''n/a''\<rparr>)) = None \<and>
   user (ex_p42\<lparr>user := ''n/a''\<rparr>) = ''n/a''"
proof -
  have a: "ex_p57 \<in> set [ex_p57, ex_p42]"
    "status_file_later ex_fs (pid ex_p57) = Some ex_status57"
    "ex_cache (find_uid ex_status57 0) = None"
    by (simp_all add: ex_fs_def ex_p57_def ex_find_uid ex_cache_def)
  have b: "ex_p42\<lparr>user := ''n/a''\<rparr> \<in> set [ex_p57, ex_p42\<lparr>user := ''n/a''\<rparr>]"
    "status_file_later ex_fs_race (pid (ex_p42\<lparr>user := ''n/a''\<rparr>)) = None"
    by (simp_all add: ex_fs_race_def ex_p42_def)
  from getProcesses_user [OF ex_getProcesses a(1)] a
  have 1: "user ex_p57 = ''unknown''" by blast
  from getProcesses_user [OF ex_getProcesses_race b(1)] b
  have 2: "user (ex_p42\<lparr>user := ''n/a''\<rparr>) = ''n/a''" by blast
  from 1 2 a b ex_getProcesses ex_getProcesses_race show ?thesis by (intro conjI)
qed

text \<open>
  Claim C9 as stated fails when a process ends between the two openings of its status
  file: with an empty cache, where no uid resolves, process 42 is sampled with the user
  \<^verbatim>\<open>n/a\<close>.
\<close>

theorem getProcesses_user_counterexample:
  "getProcesses Map.empty ex_prev ex_fs_race 8000000 40 =
     Inr [ex_p57, ex_p42\<lparr>user := ''n/a''\<rparr>] \<and>
   user (ex_p42\<lparr>user := ''n/a''\<rparr>) = ''n/a'' \<and>
   user (ex_p42\<lparr>user := ''n/a''\<rparr>) \<noteq> ''unknown''"
  using ex_getProcesses_race by simp

text \<open>
  Claim C10. Throughout every run of the modal's input loop the index stays between 0 and
  19 and the buffer, the characters of the array before the index, holds digits only: a
  digit at index 19 is dropped, backspace at index 0 changes nothing, and the buffer grows
  only by a digit key, by that digit. No write misses the array. At confirm the C string
  read from the array is that buffer, at most 19 digits, and when it is not empty
  \<^verbatim>\<open>std::stoi\<close> does not find it non-numeric.
\<close>

theorem kill_buffer_invariant:
  assumes "length pidStr0 = 20"
  shows "(\<forall>(p, i) \<in> set (loop_heads pidStr0 0 keys).
            length p = 20 \<and> 0 \<le> i \<and> i \<le> 19 \<and> (\<forall>c \<in> set (take (nat i) p). isdigit_c c) \<and>
            (\<forall>ch. isdigit ch \<and> i = 19 \<longrightarrow> loop_body p i ch = Again (p, i)) \<and>
            (i = 0 \<longrightarrow> loop_body p i KEY_BACKSPACE = Again (p, i) \<and>
                      loop_body p i KEY_DEL = Again (p, i)) \<and>
            (\<forall>ch p' i'. loop_body p i ch = Again (p', i') \<and> i < i' \<longrightarrow>
               isdigit ch \<and> i' = i + 1 \<and> take (nat i') p' = take (nat i) p @ [char_of ch])) \<and>
         (\<forall>f. input_loop pidStr0 0 keys \<noteq> Stopped f) \<and>
         (\<forall>f. killProcessWindow pidStr0 keys \<noteq> Stopped f) \<and>
         (\<forall>p i. input_loop pidStr0 0 keys = Done (p, i) \<and> i \<noteq> - 1 \<longrightarrow>
            c_str p = take (nat i) p \<and> length (c_str p) \<le> 19 \<and>
            (\<forall>c \<in> set (c_str p). isdigit_c c) \<and>
            (c_str p \<noteq> [] \<longrightarrow> stoi (c_str p) \<noteq> Inl InvalidArgument))"
    (is "?heads \<and> ?nf1 \<and> ?nf2 \<and> ?fin")
proof -
  note start = buffer_ok_start [OF assms]
  have heads: ?heads
  proof (rule ballI, rule prod.case_eq_if [THEN iffD2], clarify)
    fix p i
    assume "(p, i) \<in> set (loop_heads pidStr0 0 keys)"
    from loop_heads_ok [OF start this] have ok: "buffer_ok p i" .
    from buffer_okD [OF ok]
    have 1: "length p = 20" "0 \<le> i" "i \<le> 19" "\<forall>c \<in> set (take (nat i) p). isdigit_c c"
      by simp_all
    have 2: "\<forall>ch. isdigit ch \<and> i = 19 \<longrightarrow> loop_body p i ch = Again (p, i)"
      using loop_body_full by simp
    have 3: "i = 0 \<longrightarrow> loop_body p i KEY_BACKSPACE = Again (p, i) \<and>
                      loop_body p i KEY_DEL = Again (p, i)"
      using loop_body_backspace_empty by simp
    have 4: "\<forall>ch p' i'. loop_body p i ch = Again (p', i') \<and> i < i' \<longrightarrow>
               isdigit ch \<and> i' = i + 1 \<and> take (nat i') p' = take (nat i) p @ [char_of ch]"
      using loop_body_grow [OF ok] by (intro allI impI) (erule conjE)
    from 1 2 3 4
    show "length (fst (p, i)) = 20 \<and> 0 \<le> snd (p, i) \<and> snd (p, i) \<le> 19 \<and>
       (\<forall>c \<in> set (take (nat (snd (p, i))) (fst (p, i))). isdigit_c c) \<and>
       (\<forall>ch. isdigit ch \<and> snd (p, i) = 19 \<longrightarrow>
          loop_body (fst (p, i)) (snd (p, i)) ch = Again (fst (p, i), snd (p, i))) \<and>
       (snd (p, i) = 0 \<longrightarrow>
          loop_body (fst (p, i)) (snd (p, i)) KEY_BACKSPACE = Again (fst (p, i), snd (p, i)) \<and>
          loop_body (fst (p, i)) (snd (p, i)) KEY_DEL = Again (fst (p, i), snd (p, i))) \<and>
       (\<forall>ch p' i'. loop_body (fst (p, i)) (snd (p, i)) ch = Again (p', i') \<and> snd (p, i) < i' \<longrightarrow>
          isdigit ch \<and> i' = snd (p, i) + 1 \<and>
          take (nat i') p' = take (nat (snd (p, i))) (fst (p, i)) @ [char_of ch])"
      by (simp only: fst_conv snd_conv simp_thms)
  qed
  have fin: ?fin
  proof (intro allI impI, elim conjE)
    fix p i
    assume d: "input_loop pidStr0 0 keys = Done (p, i)" and n: "i \<noteq> - 1"
    from input_loop_done [OF start d] n
    have a: "0 \<le> i" "i \<le> 19" "length p = 20" "c_str p = take (nat i) p"
      "\<forall>c \<in> set (c_str p). isdigit_c c" by simp_all
    from a(1-4) have l: "length (c_str p) \<le> 19" by simp
    have s: "c_str p \<noteq> [] \<longrightarrow> stoi (c_str p) \<noteq> Inl InvalidArgument"
      using stoi_digits [OF _ a(5)] by blast
    from a(4,5) l s
    show "c_str p = take (nat i) p \<and> length (c_str p) \<le> 19 \<and>
            (\<forall>c \<in> set (c_str p). isdigit_c c) \<and>
            (c_str p \<noteq> [] \<longrightarrow> stoi (c_str p) \<noteq> Inl InvalidArgument)"
      by (intro conjI)
  qed
  have nf1: ?nf1 using input_loop_no_fault [OF start] by (intro allI)
  have nf2: ?nf2 using kill_no_fault [OF assms] by (intro allI)
  from heads nf1 nf2 fin show ?thesis by (intro conjI)
qed

theorem kill_buffer_invariant_witness:
  "length ex_pidStr0 = 20 \<and>
   (''12xxxxxxxxxxxxxxxxxx'', 2) \<in> set (loop_heads ex_pidStr0 0 [49, 50, 263, 51, 10]) \<and>
   isdigit 51 \<and>
   loop_body ''1xxxxxxxxxxxxxxxxxxx'' 1 51 = Again (''13xxxxxxxxxxxxxxxxxx'', 2) \<and>
   input_loop ex_pidStr0 0 [49, 50, 263, 51, 10] =
     Done (''13'' @ CHR 0x00 # ''xxxxxxxxxxxxxxxxx'', 2) \<and>
   c_str (''13'' @ CHR 0x00 # ''xxxxxxxxxxxxxxxxx'') = ''13'' \<and>
   stoi ''13'' = Inr 13"
proof -
  have len: "length ex_pidStr0 = 20" by (simp add: ex_pidStr0_def)
  have a: "(''12xxxxxxxxxxxxxxxxxx'', 2) \<in> set (loop_heads ex_pidStr0 0 [49, 50, 263, 51, 10])"
    by code_simp
  have b: "isdigit 51" by (simp add: isdigit_def)
  have c: "loop_body ''1xxxxxxxxxxxxxxxxxxx'' 1 51 = Again (''13xxxxxxxxxxxxxxxxxx'', 2)"
    by code_simp
  have d: "input_loop ex_pidStr0 0 [49, 50, 263, 51, 10] =
     Done (''13'' @ CHR 0x00 # ''xxxxxxxxxxxxxxxxx'', 2)"
    by code_simp
  have e: "c_str (''13'' @ CHR 0x00 # ''xxxxxxxxxxxxxxxxx'') = ''13''" "stoi ''13'' = Inr 13"
    by code_simp+
  from kill_buffer_invariant [OF len, of "[49, 50, 263, 51, 10]"]
  have "\<forall>f. killProcessWindow ex_pidStr0 [49, 50, 263, 51, 10] \<noteq> Stopped f"
    by (elim conjE)
  with len a b c d e show ?thesis by (intro conjI)
qed

end
